theory Spec2Isabelle
  imports Main "HOL-Library.Word" "HOL-Library.Signed_Division"
begin

unbundle bit_operations_syntax

section \<open>io\_service.hpp: small utilities\<close>

text \<open>
  C++ \<open>int\<close> is a 32-bit word read as two's complement, \<open>unsigned\<close> a 32-bit word read
  as unsigned, \<open>uint8_t\<close> an 8-bit word, pointers and \<open>__u64\<close> 64-bit words. The
  representation type of \<open>std::chrono::nanoseconds\<close> and both fields of
  \<open>__kernel_timespec\<close> are signed 64-bit integers.
\<close>

type_synonym c_int = "32 word"
type_synonym c_unsigned = "32 word"
type_synonym uint8_t = "8 word"
type_synonym int64_t = "64 word"
type_synonym addr = "64 word"

record kernel_timespec =
  tv_sec :: int64_t
  tv_nsec :: int64_t

text \<open>
  \<open>dur2ts\<close>: \<open>duration_cast<seconds>\<close> divides the nanosecond count by \<open>10^9\<close> with
  C++ integer division (truncation towards zero); \<open>dur -= secs\<close> converts the seconds
  back to nanoseconds (a multiplication by \<open>10^9\<close>) and subtracts. Multiplication and
  subtraction are those of the 64-bit representation.
\<close>

definition duration_cast_seconds :: "int64_t \<Rightarrow> int64_t" where
  "duration_cast_seconds dur = word_of_int (sint dur sdiv 1000000000)"

definition dur2ts :: "int64_t \<Rightarrow> kernel_timespec" where
  "dur2ts dur =
     (let secs = duration_cast_seconds dur;
          dur' = dur - secs * 1000000000
      in \<lparr>tv_sec = secs, tv_nsec = dur'\<rparr>)"

subsection \<open>panic and the error adapter\<close>

text \<open>
  \<open>panic\<close> never returns: it throws \<open>std::system_error(err, generic_category, sv)\<close>
  (after printing a backtrace when \<open>NDEBUG\<close> is not defined). The exception is the
  \<open>Inl\<close> branch of every result it can reach.
\<close>

datatype exn = system_error (err_code: c_int) (what: string)

definition panic :: "string \<Rightarrow> c_int \<Rightarrow> exn" where
  "panic sv err = system_error err sv"

record panic_on_err =
  command :: string
  use_errno :: bool

text \<open>\<open>ETIME\<close> comes from the system's \<open>errno.h\<close>; on Linux it is 62.\<close>

definition ETIME :: c_int where
  "ETIME = 62"

text \<open>
  \<open>operator |(int ret, panic_on_err&& poe)\<close>. The global \<open>errno\<close> read by the
  \<open>use_errno\<close> branch is the extra argument.
\<close>

definition operator_bar :: "c_int \<Rightarrow> panic_on_err \<Rightarrow> c_int \<Rightarrow> exn + c_int" where
  "operator_bar ret poe errno =
     (if ret <s 0 then
        (if use_errno poe then Inl (panic (command poe) errno)
         else if ret \<noteq> - ETIME then Inl (panic (command poe) (- ret))
         else Inr ret)
      else Inr ret)"

section \<open>The ring as the code sees it\<close>

text \<open>
  \<open>liburing\<close> and the kernel are not part of the repository. The code's calls into them
  are parameters of the model (the record \<open>env\<close> below), so every theorem holds for any
  behaviour of the ring. An \<open>io_uring_sqe*\<close> is \<open>None\<close> for \<open>NULL\<close> and \<open>Some i\<close> for the
  \<open>i\<close>-th entry of the ring's SQE array.
\<close>

type_synonym sqe_ptr = "nat option"

record io_uring_sqe =
  sqe_opcode :: "8 word"
  sqe_flags :: uint8_t
  sqe_fd :: c_int
  sqe_off :: "64 word"
  sqe_addr :: "64 word"
  sqe_len :: "32 word"
  sqe_op_flags :: "32 word"
  sqe_user_data :: "64 word"

record io_uring_cqe =
  cqe_user_data :: "64 word"
  cqe_res :: c_int

text \<open>
  A pointer argument is either an address handed in by the caller or the address of a
  local variable of the coroutine frame (\<open>&iov\<close>, \<open>&msg\<close>, \<open>&ts\<close>), which is
  represented by the value stored there.
\<close>

datatype 'a ptr = Ptr addr | Frame_local 'a

record iovec =
  iov_base :: addr
  iov_len :: "64 word"

record msghdr =
  msg_iov :: "iovec list ptr"
  msg_iovlen :: "64 word"

text \<open>The \<open>io_uring_prep_*\<close> helpers of \<open>liburing.h\<close> with their arguments.\<close>

datatype prep_call =
    prep_readv c_int "iovec list ptr" c_unsigned int64_t
  | prep_writev c_int "iovec list ptr" c_unsigned int64_t
  | prep_read c_int addr c_unsigned int64_t
  | prep_write c_int addr c_unsigned int64_t
  | prep_read_fixed c_int addr c_unsigned int64_t c_int
  | prep_write_fixed c_int addr c_unsigned int64_t c_int
  | prep_fsync c_int c_unsigned
  | prep_rw c_int c_int addr c_unsigned "64 word"
  | prep_recvmsg c_int "msghdr ptr" c_unsigned
  | prep_sendmsg c_int "msghdr ptr" c_unsigned
  | prep_recv c_int addr c_unsigned c_unsigned
  | prep_send c_int addr c_unsigned c_unsigned
  | prep_poll_add c_int "16 word"
  | prep_nop
  | prep_accept c_int addr addr c_int
  | prep_connect c_int addr c_unsigned
  | prep_timeout "kernel_timespec ptr" c_unsigned c_unsigned
  | prep_openat c_int addr c_int c_unsigned
  | prep_close c_int
  | prep_cancel addr c_int

datatype reg_call =
    register_files_call addr c_unsigned
  | register_files_update_call c_unsigned addr c_unsigned
  | unregister_files_call
  | register_buffers_call addr c_unsigned
  | unregister_buffers_call

text \<open>The public operation methods of \<open>io_service\<close> with their arguments (without \<open>iflags\<close>).\<close>

datatype op_call =
    Readv c_int "iovec list ptr" c_unsigned int64_t
  | Writev c_int "iovec list ptr" c_unsigned int64_t
  | Read c_int addr c_unsigned int64_t
  | Write c_int addr c_unsigned int64_t
  | Read_fixed c_int addr c_unsigned int64_t c_int
  | Write_fixed c_int addr c_unsigned int64_t c_int
  | Fsync c_int c_unsigned
  | Sync_file_range c_int int64_t int64_t c_unsigned
  | Recvmsg c_int "msghdr ptr" c_unsigned
  | Sendmsg c_int "msghdr ptr" c_unsigned
  | Recv c_int addr c_unsigned c_unsigned
  | Send c_int addr c_unsigned c_unsigned
  | Poll c_int "16 word"
  | Yield
  | Accept c_int addr addr c_int
  | Connect c_int addr c_unsigned c_int
  | Timeout "kernel_timespec ptr"
  | Timeout_dur int64_t
  | Openat c_int addr c_int c_unsigned
  | Close c_int

text \<open>
  What a resumed coroutine does to the \<open>io_service\<close> before it suspends again: it calls
  operation methods (each with its \<open>iflags\<close> and with the address of the promise that
  \<open>await_work\<close> constructs in the new frame), it runs the cancellation hook of a promise, or
  it makes system calls of its own.
\<close>

datatype 'r request =
    Operation op_call uint8_t addr
  | Cancel addr
  | Syscall "'r \<Rightarrow> 'r"

text \<open>
  The build configuration, the ring interface, the system calls of the fallback paths and
  \<open>promise::resolve\<close> (\<open>promise.hpp\<close>, which resumes the waiting coroutine inline). \<open>'r\<close> is
  \<open>struct io_uring\<close> together with the kernel behind it, \<open>'u\<close> the promises and coroutine
  frames of the program. \<open>io_uring_submit_and_wait\<close> yields \<open>None\<close> where the call blocks for
  ever. \<open>cq_khead\<close> and \<open>cq_entry\<close> are the two reads of the macro
  \<open>io_uring_for_each_cqe\<close>: the consumer index, and the entry at a given index (\<open>None\<close>
  when the index has reached the producer index).
\<close>

record ('r, 'u) env =
  NDEBUG :: bool
  LINUX_KERNEL_VERSION :: nat
  io_uring_get_sqe :: "'r \<Rightarrow> sqe_ptr \<times> 'r"
  io_uring_submit :: "(nat \<Rightarrow> io_uring_sqe) \<Rightarrow> 'r \<Rightarrow> 'r"
  io_uring_submit_and_wait :: "(nat \<Rightarrow> io_uring_sqe) \<Rightarrow> c_unsigned \<Rightarrow> 'r \<Rightarrow> 'r option"
  io_uring_cq_advance :: "c_unsigned \<Rightarrow> 'r \<Rightarrow> 'r"
  cq_khead :: "'r \<Rightarrow> c_unsigned"
  cq_entry :: "'r \<Rightarrow> c_unsigned \<Rightarrow> io_uring_cqe option"
  io_uring_prep :: "prep_call \<Rightarrow> io_uring_sqe \<Rightarrow> io_uring_sqe"
  io_uring_register :: "reg_call \<Rightarrow> 'r \<Rightarrow> c_int \<times> 'r"
  sys_errno :: "'r \<Rightarrow> c_int"
  sys_openat :: "c_int \<Rightarrow> addr \<Rightarrow> c_int \<Rightarrow> c_unsigned \<Rightarrow> 'r \<Rightarrow> c_int \<times> 'r"
  sys_close :: "c_int \<Rightarrow> 'r \<Rightarrow> c_int \<times> 'r"
  resolve :: "addr \<Rightarrow> c_int \<Rightarrow> 'u \<Rightarrow> 'u \<times> 'r request list"

text \<open>Calls that leave the \<open>io_service\<close>, in the order they were made (oldest first).\<close>

datatype event =
    Get_sqe sqe_ptr
  | Cq_advance c_unsigned
  | Submit
  | Submit_and_wait c_unsigned
  | Observe io_uring_cqe
  | Resolve addr c_int

text \<open>
  The \<open>io_service\<close> object (\<open>ring\<close>, \<open>cqe_count\<close>), the SQE array it writes through the
  pointers it gets, the coroutine state, and the log of calls. Output to \<open>stdout\<close> and
  \<open>stderr\<close> is not modelled.
\<close>

record ('r, 'u) world =
  ring :: 'r
  cqe_count :: c_unsigned
  sqes :: "nat \<Rightarrow> io_uring_sqe"
  coros :: 'u
  calls :: "event list"

text \<open>
  Ways not to return: a failed \<open>assert\<close>, a write through a \<open>NULL\<close> SQE pointer, and not
  returning at all (a kernel wait that blocks for ever, or a loop that does not end within
  the given number of rounds).
\<close>

datatype halt = assert_failed | null_dereference | no_return

definition and_then :: "halt + 'a \<Rightarrow> ('a \<Rightarrow> halt + 'b) \<Rightarrow> halt + 'b" where
  "and_then m f = (case m of Inl e \<Rightarrow> Inl e | Inr x \<Rightarrow> f x)"

definition logged :: "event \<Rightarrow> ('r, 'u) world \<Rightarrow> ('r, 'u) world" where
  "logged e w = w\<lparr>calls := calls w @ [e]\<rparr>"

definition call_get_sqe :: "('r, 'u) env \<Rightarrow> ('r, 'u) world \<Rightarrow> sqe_ptr \<times> ('r, 'u) world" where
  "call_get_sqe E w =
     (let (sqe, r) = io_uring_get_sqe E (ring w) in (sqe, logged (Get_sqe sqe) (w\<lparr>ring := r\<rparr>)))"

definition call_cq_advance :: "('r, 'u) env \<Rightarrow> c_unsigned \<Rightarrow> ('r, 'u) world \<Rightarrow> ('r, 'u) world" where
  "call_cq_advance E nr w = logged (Cq_advance nr) (w\<lparr>ring := io_uring_cq_advance E nr (ring w)\<rparr>)"

definition call_submit :: "('r, 'u) env \<Rightarrow> ('r, 'u) world \<Rightarrow> ('r, 'u) world" where
  "call_submit E w = logged Submit (w\<lparr>ring := io_uring_submit E (sqes w) (ring w)\<rparr>)"

definition call_submit_and_wait ::
  "('r, 'u) env \<Rightarrow> c_unsigned \<Rightarrow> ('r, 'u) world \<Rightarrow> halt + ('r, 'u) world" where
  "call_submit_and_wait E wait_nr w =
     (case io_uring_submit_and_wait E (sqes w) wait_nr (ring w) of
        None \<Rightarrow> Inl no_return
      | Some r \<Rightarrow> Inr (logged (Submit_and_wait wait_nr) (w\<lparr>ring := r\<rparr>)))"

section \<open>io\_service: the gatekeeper\<close>

text \<open>
  \<open>io_uring_get_sqe_safe\<close>. The \<open>assert\<close> is compiled only when \<open>NDEBUG\<close> is not defined;
  with \<open>NDEBUG\<close> the second pointer is returned unchecked.
\<close>

definition io_uring_get_sqe_safe ::
  "('r, 'u) env \<Rightarrow> ('r, 'u) world \<Rightarrow> halt + (sqe_ptr \<times> ('r, 'u) world)" where
  "io_uring_get_sqe_safe E w =
     (let (sqe, w1) = call_get_sqe E w in
      if sqe \<noteq> None then Inr (sqe, w1)
      else
        let w2 = call_cq_advance E (cqe_count w1) w1;
            w3 = w2\<lparr>cqe_count := 0\<rparr>;
            w4 = call_submit E w3;
            (sqe', w5) = call_get_sqe E w4
        in if \<not> NDEBUG E \<and> sqe' = None then Inl assert_failed else Inr (sqe', w5))"

section \<open>io\_service: the operation methods\<close>

text \<open>A write through an SQE pointer; through \<open>NULL\<close> the program does not go on.\<close>

definition write_sqe ::
  "sqe_ptr \<Rightarrow> (io_uring_sqe \<Rightarrow> io_uring_sqe) \<Rightarrow> ('r, 'u) world \<Rightarrow> halt + ('r, 'u) world" where
  "write_sqe sqe f w =
     (case sqe of
        None \<Rightarrow> Inl null_dereference
      | Some i \<Rightarrow> Inr (w\<lparr>sqes := (sqes w)(i := f (sqes w i))\<rparr>))"

text \<open>
  A \<open>task<int, true>\<close> returned by an operation method: the coroutine is suspended on the
  promise at the given address; when that promise is resolved with a result, the rest of the
  body computes the value it \<open>co_return\<close>s, possibly with a system call.
\<close>

datatype 'r task = Awaiting (awaited: addr) (co_return_value: "c_int \<Rightarrow> 'r \<Rightarrow> c_int \<times> 'r")

text \<open>
  \<open>await_work\<close>: \<open>p\<close> is the address of the promise constructed in the coroutine frame.
  \<open>io_uring_sqe_set_flags\<close> stores the flags, \<open>io_uring_sqe_set_data\<close> the address.
\<close>

definition await_work ::
  "('r, 'u) env \<Rightarrow> sqe_ptr \<Rightarrow> uint8_t \<Rightarrow> addr \<Rightarrow> ('r, 'u) world \<Rightarrow> halt + ('r task \<times> ('r, 'u) world)" where
  "await_work E sqe iflags p w =
     and_then (write_sqe sqe (\<lambda>s. s\<lparr>sqe_flags := iflags\<rparr>) w) (\<lambda>w1.
     and_then (write_sqe sqe (\<lambda>s. s\<lparr>sqe_user_data := p\<rparr>) w1) (\<lambda>w2.
     Inr (Awaiting p (\<lambda>res r. (res, r)), w2)))"

text \<open>The cancellation hook given to the promise in \<open>await_work\<close>.\<close>

definition cancel_hook :: "('r, 'u) env \<Rightarrow> addr \<Rightarrow> ('r, 'u) world \<Rightarrow> halt + ('r, 'u) world" where
  "cancel_hook E self w =
     and_then (io_uring_get_sqe_safe E w) (\<lambda>(sqe, w1).
     write_sqe sqe (io_uring_prep E (prep_cancel self 0)) w1)"

text \<open>
  The shape shared by the \<open>DEFINE_AWAIT_OP\<close> macros and the methods written out by hand:
  get an SQE, prepare it, hand it to \<open>await_work\<close>.
\<close>

definition DEFINE_AWAIT_OP ::
  "('r, 'u) env \<Rightarrow> prep_call \<Rightarrow> uint8_t \<Rightarrow> addr \<Rightarrow> ('r, 'u) world \<Rightarrow> halt + ('r task \<times> ('r, 'u) world)" where
  "DEFINE_AWAIT_OP E prep iflags p w =
     and_then (io_uring_get_sqe_safe E w) (\<lambda>(sqe, w1).
     and_then (write_sqe sqe (io_uring_prep E prep) w1) (\<lambda>w2.
     await_work E sqe iflags p w2))"

definition readv ::
  "('r, 'u) env \<Rightarrow> c_int \<Rightarrow> iovec list ptr \<Rightarrow> c_unsigned \<Rightarrow> int64_t \<Rightarrow> uint8_t \<Rightarrow> addr
   \<Rightarrow> ('r, 'u) world \<Rightarrow> halt + ('r task \<times> ('r, 'u) world)" where
  "readv E fd iovecs nr_vecs offset iflags p =
     DEFINE_AWAIT_OP E (prep_readv fd iovecs nr_vecs offset) iflags p"

definition writev ::
  "('r, 'u) env \<Rightarrow> c_int \<Rightarrow> iovec list ptr \<Rightarrow> c_unsigned \<Rightarrow> int64_t \<Rightarrow> uint8_t \<Rightarrow> addr
   \<Rightarrow> ('r, 'u) world \<Rightarrow> halt + ('r task \<times> ('r, 'u) world)" where
  "writev E fd iovecs nr_vecs offset iflags p =
     DEFINE_AWAIT_OP E (prep_writev fd iovecs nr_vecs offset) iflags p"

text \<open>
  \<open>read\<close> and \<open>write\<close> (here \<open>write'\<close>): the native opcode from kernel 5.6 on; before,
  the vectored method on an \<open>iovec\<close> local to the frame.
\<close>

definition read ::
  "('r, 'u) env \<Rightarrow> c_int \<Rightarrow> addr \<Rightarrow> c_unsigned \<Rightarrow> int64_t \<Rightarrow> uint8_t \<Rightarrow> addr
   \<Rightarrow> ('r, 'u) world \<Rightarrow> halt + ('r task \<times> ('r, 'u) world)" where
  "read E fd buf nbytes offset iflags p =
     (if 56 \<le> LINUX_KERNEL_VERSION E
      then DEFINE_AWAIT_OP E (prep_read fd buf nbytes offset) iflags p
      else readv E fd (Frame_local [\<lparr>iov_base = buf, iov_len = ucast nbytes\<rparr>]) 1 offset iflags p)"

definition write' ::
  "('r, 'u) env \<Rightarrow> c_int \<Rightarrow> addr \<Rightarrow> c_unsigned \<Rightarrow> int64_t \<Rightarrow> uint8_t \<Rightarrow> addr
   \<Rightarrow> ('r, 'u) world \<Rightarrow> halt + ('r task \<times> ('r, 'u) world)" where
  "write' E fd buf nbytes offset iflags p =
     (if 56 \<le> LINUX_KERNEL_VERSION E
      then DEFINE_AWAIT_OP E (prep_write fd buf nbytes offset) iflags p
      else writev E fd (Frame_local [\<lparr>iov_base = buf, iov_len = ucast nbytes\<rparr>]) 1 offset iflags p)"

definition read_fixed ::
  "('r, 'u) env \<Rightarrow> c_int \<Rightarrow> addr \<Rightarrow> c_unsigned \<Rightarrow> int64_t \<Rightarrow> c_int \<Rightarrow> uint8_t \<Rightarrow> addr
   \<Rightarrow> ('r, 'u) world \<Rightarrow> halt + ('r task \<times> ('r, 'u) world)" where
  "read_fixed E fd buf nbytes offset buf_index iflags p =
     DEFINE_AWAIT_OP E (prep_read_fixed fd buf nbytes offset buf_index) iflags p"

definition write_fixed ::
  "('r, 'u) env \<Rightarrow> c_int \<Rightarrow> addr \<Rightarrow> c_unsigned \<Rightarrow> int64_t \<Rightarrow> c_int \<Rightarrow> uint8_t \<Rightarrow> addr
   \<Rightarrow> ('r, 'u) world \<Rightarrow> halt + ('r task \<times> ('r, 'u) world)" where
  "write_fixed E fd buf nbytes offset buf_index iflags p =
     DEFINE_AWAIT_OP E (prep_write_fixed fd buf nbytes offset buf_index) iflags p"

definition fsync ::
  "('r, 'u) env \<Rightarrow> c_int \<Rightarrow> c_unsigned \<Rightarrow> uint8_t \<Rightarrow> addr
   \<Rightarrow> ('r, 'u) world \<Rightarrow> halt + ('r task \<times> ('r, 'u) world)" where
  "fsync E fd fsync_flags iflags p = DEFINE_AWAIT_OP E (prep_fsync fd fsync_flags) iflags p"

text \<open>\<open>IORING_OP_SYNC_FILE_RANGE\<close> is 8 in the kernel's \<open>io_uring.h\<close>.\<close>

definition IORING_OP_SYNC_FILE_RANGE :: c_int where
  "IORING_OP_SYNC_FILE_RANGE = 8"

text \<open>
  \<open>sync_file_range\<close> prepares with \<open>io_uring_prep_rw\<close> (whose length parameter is
  \<open>unsigned\<close>, so \<open>nbytes\<close> is cut to 32 bits) and then stores the range flags itself.
\<close>

definition sync_file_range ::
  "('r, 'u) env \<Rightarrow> c_int \<Rightarrow> int64_t \<Rightarrow> int64_t \<Rightarrow> c_unsigned \<Rightarrow> uint8_t \<Rightarrow> addr
   \<Rightarrow> ('r, 'u) world \<Rightarrow> halt + ('r task \<times> ('r, 'u) world)" where
  "sync_file_range E fd offset nbytes sync_range_flags iflags p w =
     and_then (io_uring_get_sqe_safe E w) (\<lambda>(sqe, w1).
     and_then (write_sqe sqe
                 (io_uring_prep E (prep_rw IORING_OP_SYNC_FILE_RANGE fd 0 (ucast nbytes) offset)) w1)
       (\<lambda>w2.
     and_then (write_sqe sqe (\<lambda>s. s\<lparr>sqe_op_flags := sync_range_flags\<rparr>) w2) (\<lambda>w3.
     await_work E sqe iflags p w3)))"

definition recvmsg ::
  "('r, 'u) env \<Rightarrow> c_int \<Rightarrow> msghdr ptr \<Rightarrow> c_unsigned \<Rightarrow> uint8_t \<Rightarrow> addr
   \<Rightarrow> ('r, 'u) world \<Rightarrow> halt + ('r task \<times> ('r, 'u) world)" where
  "recvmsg E sockfd msg msg_flags iflags p =
     DEFINE_AWAIT_OP E (prep_recvmsg sockfd msg msg_flags) iflags p"

definition sendmsg ::
  "('r, 'u) env \<Rightarrow> c_int \<Rightarrow> msghdr ptr \<Rightarrow> c_unsigned \<Rightarrow> uint8_t \<Rightarrow> addr
   \<Rightarrow> ('r, 'u) world \<Rightarrow> halt + ('r task \<times> ('r, 'u) world)" where
  "sendmsg E sockfd msg msg_flags iflags p =
     DEFINE_AWAIT_OP E (prep_sendmsg sockfd msg msg_flags) iflags p"

text \<open>
  \<open>recv\<close> and \<open>send\<close>: the native opcode from kernel 5.6 on; before, the message method on a
  \<open>msghdr\<close> and an \<open>iovec\<close> local to the frame.
\<close>

definition recv ::
  "('r, 'u) env \<Rightarrow> c_int \<Rightarrow> addr \<Rightarrow> c_unsigned \<Rightarrow> c_unsigned \<Rightarrow> uint8_t \<Rightarrow> addr
   \<Rightarrow> ('r, 'u) world \<Rightarrow> halt + ('r task \<times> ('r, 'u) world)" where
  "recv E sockfd buf nbytes msg_flags iflags p =
     (if 56 \<le> LINUX_KERNEL_VERSION E
      then DEFINE_AWAIT_OP E (prep_recv sockfd buf nbytes msg_flags) iflags p
      else recvmsg E sockfd
             (Frame_local \<lparr>msg_iov = Frame_local [\<lparr>iov_base = buf, iov_len = ucast nbytes\<rparr>],
                           msg_iovlen = 1\<rparr>)
             msg_flags iflags p)"

definition send ::
  "('r, 'u) env \<Rightarrow> c_int \<Rightarrow> addr \<Rightarrow> c_unsigned \<Rightarrow> c_unsigned \<Rightarrow> uint8_t \<Rightarrow> addr
   \<Rightarrow> ('r, 'u) world \<Rightarrow> halt + ('r task \<times> ('r, 'u) world)" where
  "send E sockfd buf nbytes msg_flags iflags p =
     (if 56 \<le> LINUX_KERNEL_VERSION E
      then DEFINE_AWAIT_OP E (prep_send sockfd buf nbytes msg_flags) iflags p
      else sendmsg E sockfd
             (Frame_local \<lparr>msg_iov = Frame_local [\<lparr>iov_base = buf, iov_len = ucast nbytes\<rparr>],
                           msg_iovlen = 1\<rparr>)
             msg_flags iflags p)"

definition poll ::
  "('r, 'u) env \<Rightarrow> c_int \<Rightarrow> 16 word \<Rightarrow> uint8_t \<Rightarrow> addr
   \<Rightarrow> ('r, 'u) world \<Rightarrow> halt + ('r task \<times> ('r, 'u) world)" where
  "poll E fd poll_mask iflags p = DEFINE_AWAIT_OP E (prep_poll_add fd poll_mask) iflags p"

definition yield ::
  "('r, 'u) env \<Rightarrow> uint8_t \<Rightarrow> addr \<Rightarrow> ('r, 'u) world \<Rightarrow> halt + ('r task \<times> ('r, 'u) world)" where
  "yield E iflags p = DEFINE_AWAIT_OP E prep_nop iflags p"

definition accept ::
  "('r, 'u) env \<Rightarrow> c_int \<Rightarrow> addr \<Rightarrow> addr \<Rightarrow> c_int \<Rightarrow> uint8_t \<Rightarrow> addr
   \<Rightarrow> ('r, 'u) world \<Rightarrow> halt + ('r task \<times> ('r, 'u) world)" where
  "accept E fd sockaddr addrlen accept_flags iflags p =
     DEFINE_AWAIT_OP E (prep_accept fd sockaddr addrlen accept_flags) iflags p"

text \<open>\<open>connect\<close> takes a \<open>flags\<close> parameter and does not use it.\<close>

definition connect ::
  "('r, 'u) env \<Rightarrow> c_int \<Rightarrow> addr \<Rightarrow> c_unsigned \<Rightarrow> c_int \<Rightarrow> uint8_t \<Rightarrow> addr
   \<Rightarrow> ('r, 'u) world \<Rightarrow> halt + ('r task \<times> ('r, 'u) world)" where
  "connect E fd sockaddr addrlen connect_flags iflags p =
     DEFINE_AWAIT_OP E (prep_connect fd sockaddr addrlen) iflags p"

definition timeout ::
  "('r, 'u) env \<Rightarrow> kernel_timespec ptr \<Rightarrow> uint8_t \<Rightarrow> addr
   \<Rightarrow> ('r, 'u) world \<Rightarrow> halt + ('r task \<times> ('r, 'u) world)" where
  "timeout E ts iflags p = DEFINE_AWAIT_OP E (prep_timeout ts 0 0) iflags p"

definition timeout_dur ::
  "('r, 'u) env \<Rightarrow> int64_t \<Rightarrow> uint8_t \<Rightarrow> addr
   \<Rightarrow> ('r, 'u) world \<Rightarrow> halt + ('r task \<times> ('r, 'u) world)" where
  "timeout_dur E dur iflags p = timeout E (Frame_local (dur2ts dur)) iflags p"

text \<open>
  \<open>openat\<close> and \<open>close\<close>: the native opcode from kernel 5.6 on; before, the coroutine awaits
  \<open>yield(iflags)\<close>, drops its result, and returns what the system call returns.
\<close>

definition openat ::
  "('r, 'u) env \<Rightarrow> c_int \<Rightarrow> addr \<Rightarrow> c_int \<Rightarrow> c_unsigned \<Rightarrow> uint8_t \<Rightarrow> addr
   \<Rightarrow> ('r, 'u) world \<Rightarrow> halt + ('r task \<times> ('r, 'u) world)" where
  "openat E dfd path open_flags mode iflags p w =
     (if 56 \<le> LINUX_KERNEL_VERSION E
      then DEFINE_AWAIT_OP E (prep_openat dfd path open_flags mode) iflags p w
      else and_then (yield E iflags p w) (\<lambda>(t, w1).
           Inr (Awaiting (awaited t)
                  (\<lambda>res r. sys_openat E dfd path open_flags mode (snd (co_return_value t res r))),
                w1)))"

definition close ::
  "('r, 'u) env \<Rightarrow> c_int \<Rightarrow> uint8_t \<Rightarrow> addr
   \<Rightarrow> ('r, 'u) world \<Rightarrow> halt + ('r task \<times> ('r, 'u) world)" where
  "close E fd iflags p w =
     (if 56 \<le> LINUX_KERNEL_VERSION E
      then DEFINE_AWAIT_OP E (prep_close fd) iflags p w
      else and_then (yield E iflags p w) (\<lambda>(t, w1).
           Inr (Awaiting (awaited t)
                  (\<lambda>res r. sys_close E fd (snd (co_return_value t res r))),
                w1)))"

text \<open>A call of an operation method by name.\<close>

fun invoke ::
  "('r, 'u) env \<Rightarrow> op_call \<Rightarrow> uint8_t \<Rightarrow> addr \<Rightarrow> ('r, 'u) world \<Rightarrow> halt + ('r task \<times> ('r, 'u) world)" where
  "invoke E (Readv fd iovecs nr_vecs offset) = readv E fd iovecs nr_vecs offset"
| "invoke E (Writev fd iovecs nr_vecs offset) = writev E fd iovecs nr_vecs offset"
| "invoke E (Read fd buf nbytes offset) = read E fd buf nbytes offset"
| "invoke E (Write fd buf nbytes offset) = write' E fd buf nbytes offset"
| "invoke E (Read_fixed fd buf nbytes offset buf_index) = read_fixed E fd buf nbytes offset buf_index"
| "invoke E (Write_fixed fd buf nbytes offset buf_index) = write_fixed E fd buf nbytes offset buf_index"
| "invoke E (Fsync fd fsync_flags) = fsync E fd fsync_flags"
| "invoke E (Sync_file_range fd offset nbytes sync_range_flags) =
     sync_file_range E fd offset nbytes sync_range_flags"
| "invoke E (Recvmsg sockfd msg msg_flags) = recvmsg E sockfd msg msg_flags"
| "invoke E (Sendmsg sockfd msg msg_flags) = sendmsg E sockfd msg msg_flags"
| "invoke E (Recv sockfd buf nbytes msg_flags) = recv E sockfd buf nbytes msg_flags"
| "invoke E (Send sockfd buf nbytes msg_flags) = send E sockfd buf nbytes msg_flags"
| "invoke E (Poll fd poll_mask) = poll E fd poll_mask"
| "invoke E Yield = yield E"
| "invoke E (Accept fd sockaddr addrlen accept_flags) = accept E fd sockaddr addrlen accept_flags"
| "invoke E (Connect fd sockaddr addrlen connect_flags) = connect E fd sockaddr addrlen connect_flags"
| "invoke E (Timeout ts) = timeout E ts"
| "invoke E (Timeout_dur dur) = timeout_dur E dur"
| "invoke E (Openat dfd path open_flags mode) = openat E dfd path open_flags mode"
| "invoke E (Close fd) = close E fd"

section \<open>io\_service: the driver\<close>

text \<open>
  What resumed code asks of the \<open>io_service\<close>, served in order. The tasks that the
  operation methods return stay with the coroutines.
\<close>

definition serve1 :: "('r, 'u) env \<Rightarrow> 'r request \<Rightarrow> ('r, 'u) world \<Rightarrow> halt + ('r, 'u) world" where
  "serve1 E q w =
     (case q of
        Operation c iflags p \<Rightarrow> and_then (invoke E c iflags p w) (\<lambda>(t, w1). Inr w1)
      | Cancel self \<Rightarrow> cancel_hook E self w
      | Syscall f \<Rightarrow> Inr (w\<lparr>ring := f (ring w)\<rparr>))"

fun serve :: "('r, 'u) env \<Rightarrow> 'r request list \<Rightarrow> ('r, 'u) world \<Rightarrow> halt + ('r, 'u) world" where
  "serve E [] w = Inr w"
| "serve E (q # qs) w = and_then (serve1 E q w) (serve E qs)"

text \<open>\<open>coro->resolve(cqe->res)\<close>: the promise is resolved and its waiter runs inline.\<close>

definition resolve_promise ::
  "('r, 'u) env \<Rightarrow> addr \<Rightarrow> c_int \<Rightarrow> ('r, 'u) world \<Rightarrow> halt + ('r, 'u) world" where
  "resolve_promise E coro result w =
     (let (u, reqs) = resolve E coro result (coros w)
      in serve E reqs (logged (Resolve coro result) (w\<lparr>coros := u\<rparr>)))"

text \<open>The body of \<open>io_uring_for_each_cqe\<close> in \<open>run\<close>.\<close>

definition cqe_body ::
  "('r, 'u) env \<Rightarrow> io_uring_cqe \<Rightarrow> ('r, 'u) world \<Rightarrow> halt + ('r, 'u) world" where
  "cqe_body E cqe w =
     (let w1 = logged (Observe cqe) (w\<lparr>cqe_count := cqe_count w + 1\<rparr>);
          coro = cqe_user_data cqe
      in if coro \<noteq> 0 then resolve_promise E coro (cqe_res cqe) w1 else Inr w1)"

text \<open>
  \<open>io_uring_for_each_cqe(&ring, head, cqe)\<close>: \<open>head\<close> starts at the consumer index and is
  incremented after each body; the loop ends when there is no entry at \<open>head\<close>. The first
  argument bounds the number of bodies run.
\<close>

fun for_each_cqe ::
  "('r, 'u) env \<Rightarrow> nat \<Rightarrow> c_unsigned \<Rightarrow> ('r, 'u) world \<Rightarrow> halt + ('r, 'u) world" where
  "for_each_cqe E 0 head w =
     (case cq_entry E (ring w) head of None \<Rightarrow> Inr w | Some cqe \<Rightarrow> Inl no_return)"
| "for_each_cqe E (Suc k) head w =
     (case cq_entry E (ring w) head of
        None \<Rightarrow> Inr w
      | Some cqe \<Rightarrow>
          (case cqe_body E cqe w of
             Inl e \<Rightarrow> Inl e
           | Inr w1 \<Rightarrow> for_each_cqe E k (head + 1) w1))"

text \<open>One round of the \<open>while\<close> loop of \<open>run\<close>.\<close>

definition run_body :: "('r, 'u) env \<Rightarrow> nat \<Rightarrow> ('r, 'u) world \<Rightarrow> halt + ('r, 'u) world" where
  "run_body E k w =
     and_then (call_submit_and_wait E 1 w) (\<lambda>w1.
     and_then (for_each_cqe E k (cq_khead E (ring w1)) w1) (\<lambda>w2.
     let w3 = call_cq_advance E (cqe_count w2) w2
     in Inr (w3\<lparr>cqe_count := 0\<rparr>)))"

text \<open>The root task \<open>t\<close> of \<open>run\<close> (\<open>task.hpp\<close>): its two queries on the coroutine state.\<close>

record ('u, 'a) root_task =
  task_done :: "'u \<Rightarrow> bool"
  task_get_result :: "'u \<Rightarrow> 'a"

text \<open>
  \<open>run\<close>: \<open>k\<close> bounds the bodies of one \<open>io_uring_for_each_cqe\<close>, the next argument the
  rounds of the \<open>while\<close> loop.
\<close>

fun run ::
  "('r, 'u) env \<Rightarrow> ('u, 'a) root_task \<Rightarrow> nat \<Rightarrow> nat \<Rightarrow> ('r, 'u) world \<Rightarrow> halt + ('a \<times> ('r, 'u) world)" where
  "run E t k 0 w =
     (if \<not> task_done t (coros w) then Inl no_return
      else Inr (task_get_result t (coros w), w))"
| "run E t k (Suc n) w =
     (if \<not> task_done t (coros w)
      then (case run_body E k w of Inl e \<Rightarrow> Inl e | Inr w1 \<Rightarrow> run E t k n w1)
      else Inr (task_get_result t (coros w), w))"

section \<open>io\_service: registration\<close>

text \<open>
  The three registering methods pipe the return code into the error adapter and return
  \<open>void\<close>; the two unregistering methods are \<open>noexcept\<close> and return the code.
\<close>

definition register_files ::
  "('r, 'u) env \<Rightarrow> addr \<Rightarrow> c_unsigned \<Rightarrow> ('r, 'u) world \<Rightarrow> exn + ('r, 'u) world" where
  "register_files E files nr_files w =
     (let (ret, r) = io_uring_register E (register_files_call files nr_files) (ring w)
      in case operator_bar ret \<lparr>command = ''io_uring_register_files'', use_errno = False\<rparr>
                (sys_errno E r) of
           Inl e \<Rightarrow> Inl e
         | Inr v \<Rightarrow> Inr (w\<lparr>ring := r\<rparr>))"

definition register_files_update ::
  "('r, 'u) env \<Rightarrow> c_unsigned \<Rightarrow> addr \<Rightarrow> c_unsigned \<Rightarrow> ('r, 'u) world \<Rightarrow> exn + ('r, 'u) world" where
  "register_files_update E offset files nr_files w =
     (let (ret, r) = io_uring_register E (register_files_update_call offset files nr_files) (ring w)
      in case operator_bar ret \<lparr>command = ''io_uring_register_files'', use_errno = False\<rparr>
                (sys_errno E r) of
           Inl e \<Rightarrow> Inl e
         | Inr v \<Rightarrow> Inr (w\<lparr>ring := r\<rparr>))"

definition unregister_files :: "('r, 'u) env \<Rightarrow> ('r, 'u) world \<Rightarrow> c_int \<times> ('r, 'u) world" where
  "unregister_files E w =
     (let (ret, r) = io_uring_register E unregister_files_call (ring w) in (ret, w\<lparr>ring := r\<rparr>))"

definition register_buffers ::
  "('r, 'u) env \<Rightarrow> addr \<Rightarrow> c_unsigned \<Rightarrow> ('r, 'u) world \<Rightarrow> exn + ('r, 'u) world" where
  "register_buffers E iovecs nr_iovecs w =
     (let (ret, r) = io_uring_register E (register_buffers_call iovecs nr_iovecs) (ring w)
      in case operator_bar ret \<lparr>command = ''io_uring_register_buffers'', use_errno = False\<rparr>
                (sys_errno E r) of
           Inl e \<Rightarrow> Inl e
         | Inr v \<Rightarrow> Inr (w\<lparr>ring := r\<rparr>))"

definition unregister_buffers :: "('r, 'u) env \<Rightarrow> ('r, 'u) world \<Rightarrow> c_int \<times> ('r, 'u) world" where
  "unregister_buffers E w =
     (let (ret, r) = io_uring_register E unregister_buffers_call (ring w) in (ret, w\<lparr>ring := r\<rparr>))"

section \<open>The operation methods side by side\<close>

text \<open>
  The opcode-specific writes of each operation method, collected from the method bodies: the
  preparation helper it calls with its arguments (for the methods with a fallback, the one
  of the build at hand), and for \<open>sync_file_range\<close> the store of the range flags after it.
\<close>

fun prep_of :: "('r, 'u) env \<Rightarrow> op_call \<Rightarrow> io_uring_sqe \<Rightarrow> io_uring_sqe" where
  "prep_of E (Readv fd iovecs nr_vecs offset) = io_uring_prep E (prep_readv fd iovecs nr_vecs offset)"
| "prep_of E (Writev fd iovecs nr_vecs offset) = io_uring_prep E (prep_writev fd iovecs nr_vecs offset)"
| "prep_of E (Read fd buf nbytes offset) =
     io_uring_prep E
       (if 56 \<le> LINUX_KERNEL_VERSION E then prep_read fd buf nbytes offset
        else prep_readv fd (Frame_local [\<lparr>iov_base = buf, iov_len = ucast nbytes\<rparr>]) 1 offset)"
| "prep_of E (Write fd buf nbytes offset) =
     io_uring_prep E
       (if 56 \<le> LINUX_KERNEL_VERSION E then prep_write fd buf nbytes offset
        else prep_writev fd (Frame_local [\<lparr>iov_base = buf, iov_len = ucast nbytes\<rparr>]) 1 offset)"
| "prep_of E (Read_fixed fd buf nbytes offset buf_index) =
     io_uring_prep E (prep_read_fixed fd buf nbytes offset buf_index)"
| "prep_of E (Write_fixed fd buf nbytes offset buf_index) =
     io_uring_prep E (prep_write_fixed fd buf nbytes offset buf_index)"
| "prep_of E (Fsync fd fsync_flags) = io_uring_prep E (prep_fsync fd fsync_flags)"
| "prep_of E (Sync_file_range fd offset nbytes sync_range_flags) =
     (\<lambda>s. (io_uring_prep E (prep_rw IORING_OP_SYNC_FILE_RANGE fd 0 (ucast nbytes) offset) s)
            \<lparr>sqe_op_flags := sync_range_flags\<rparr>)"
| "prep_of E (Recvmsg sockfd msg msg_flags) = io_uring_prep E (prep_recvmsg sockfd msg msg_flags)"
| "prep_of E (Sendmsg sockfd msg msg_flags) = io_uring_prep E (prep_sendmsg sockfd msg msg_flags)"
| "prep_of E (Recv sockfd buf nbytes msg_flags) =
     io_uring_prep E
       (if 56 \<le> LINUX_KERNEL_VERSION E then prep_recv sockfd buf nbytes msg_flags
        else prep_recvmsg sockfd
               (Frame_local \<lparr>msg_iov = Frame_local [\<lparr>iov_base = buf, iov_len = ucast nbytes\<rparr>],
                             msg_iovlen = 1\<rparr>) msg_flags)"
| "prep_of E (Send sockfd buf nbytes msg_flags) =
     io_uring_prep E
       (if 56 \<le> LINUX_KERNEL_VERSION E then prep_send sockfd buf nbytes msg_flags
        else prep_sendmsg sockfd
               (Frame_local \<lparr>msg_iov = Frame_local [\<lparr>iov_base = buf, iov_len = ucast nbytes\<rparr>],
                             msg_iovlen = 1\<rparr>) msg_flags)"
| "prep_of E (Poll fd poll_mask) = io_uring_prep E (prep_poll_add fd poll_mask)"
| "prep_of E Yield = io_uring_prep E prep_nop"
| "prep_of E (Accept fd sockaddr addrlen accept_flags) =
     io_uring_prep E (prep_accept fd sockaddr addrlen accept_flags)"
| "prep_of E (Connect fd sockaddr addrlen connect_flags) =
     io_uring_prep E (prep_connect fd sockaddr addrlen)"
| "prep_of E (Timeout ts) = io_uring_prep E (prep_timeout ts 0 0)"
| "prep_of E (Timeout_dur dur) = io_uring_prep E (prep_timeout (Frame_local (dur2ts dur)) 0 0)"
| "prep_of E (Openat dfd path open_flags mode) =
     io_uring_prep E
       (if 56 \<le> LINUX_KERNEL_VERSION E then prep_openat dfd path open_flags mode else prep_nop)"
| "prep_of E (Close fd) =
     io_uring_prep E (if 56 \<le> LINUX_KERNEL_VERSION E then prep_close fd else prep_nop)"

text \<open>
  The common effect of an operation method that returns: a slot from the gatekeeper, in which
  the content written by \<open>f\<close> is completed with the caller's flags and the promise's address,
  and a task waiting on that promise.
\<close>

definition prepared ::
  "('r, 'u) env \<Rightarrow> (io_uring_sqe \<Rightarrow> io_uring_sqe) \<Rightarrow> uint8_t \<Rightarrow> addr \<Rightarrow> ('r, 'u) world
   \<Rightarrow> 'r task \<Rightarrow> ('r, 'u) world \<Rightarrow> bool" where
  "prepared E f iflags p w t w' \<longleftrightarrow>
     (\<exists>i w1. io_uring_get_sqe_safe E w = Inr (Some i, w1)
        \<and> w' = w1\<lparr>sqes := (sqes w)(i := (f (sqes w i))\<lparr>sqe_flags := iflags, sqe_user_data := p\<rparr>)\<rparr>
        \<and> awaited t = p)"

section \<open>Accounting of completions\<close>

text \<open>
  Read off the log: how many CQEs the driver has looked at, and by how much the consumer
  index of the completion queue has been advanced (an \<open>unsigned\<close>, as the index itself).
\<close>

fun observed :: "event list \<Rightarrow> nat" where
  "observed [] = 0"
| "observed (Observe cqe # es) = Suc (observed es)"
| "observed (e # es) = observed es"

fun advanced :: "event list \<Rightarrow> c_unsigned" where
  "advanced [] = 0"
| "advanced (Cq_advance nr # es) = nr + advanced es"
| "advanced (e # es) = advanced es"

text \<open>
  A log replayed against a count of CQEs that were observed and not yet consumed: an
  observation adds one, an advance must be by exactly that count and leaves none. The
  result is the count at the end, or \<open>None\<close> when some advance was by another number.
\<close>

fun tally :: "c_unsigned \<Rightarrow> event list \<Rightarrow> c_unsigned option" where
  "tally c [] = Some c"
| "tally c (Observe cqe # es) = tally (c + 1) es"
| "tally c (Cq_advance nr # es) = (if nr = c then tally 0 es else None)"
| "tally c (e # es) = tally c es"

definition new_calls :: "('r, 'u) world \<Rightarrow> ('r, 'u) world \<Rightarrow> event list" where
  "new_calls w w' = drop (length (calls w)) (calls w')"

text \<open>
  Between two states the log has only grown, every advance in between was by the number of
  CQEs observed since the advance before it, and the counter holds the number observed since
  the last one.
\<close>

definition accounted :: "('r, 'u) world \<Rightarrow> ('r, 'u) world \<Rightarrow> bool" where
  "accounted w w' \<longleftrightarrow>
     take (length (calls w)) (calls w') = calls w \<and>
     tally (cqe_count w) (new_calls w w') = Some (cqe_count w')"

section \<open>Completions read from the ring\<close>

text \<open>
  The CQEs that \<open>io_uring_for_each_cqe\<close> in \<open>run\<close> reads from the ring and hands to its body,
  in order: the entry at \<open>head\<close>, then, in the state the body leaves, the entry at
  \<open>head + 1\<close>, and so on until there is none. \<open>round_visited\<close> are those of one round of the
  \<open>while\<close> loop.
\<close>

fun visited ::
  "('r, 'u) env \<Rightarrow> nat \<Rightarrow> c_unsigned \<Rightarrow> ('r, 'u) world \<Rightarrow> io_uring_cqe list" where
  "visited E 0 head w = []"
| "visited E (Suc k) head w =
     (case cq_entry E (ring w) head of
        None \<Rightarrow> []
      | Some cqe \<Rightarrow>
          cqe # (case cqe_body E cqe w of Inl e \<Rightarrow> [] | Inr w1 \<Rightarrow> visited E k (head + 1) w1))"

definition round_visited :: "('r, 'u) env \<Rightarrow> nat \<Rightarrow> ('r, 'u) world \<Rightarrow> io_uring_cqe list" where
  "round_visited E k w =
     (case call_submit_and_wait E 1 w of
        Inl e \<Rightarrow> []
      | Inr w1 \<Rightarrow> visited E k (cq_khead E (ring w1)) w1)"

text \<open>The CQEs that the log records as observed, in order.\<close>

fun observations :: "event list \<Rightarrow> io_uring_cqe list" where
  "observations [] = []"
| "observations (Observe cqe # es) = cqe # observations es"
| "observations (e # es) = observations es"

text \<open>
  The ring's consumer index plus the counter: the index up to which completions have been
  taken from the ring, consumed or still to be consumed.
\<close>

definition seen_upto :: "('r, 'u) env \<Rightarrow> ('r, 'u) world \<Rightarrow> c_unsigned" where
  "seen_upto E w = cq_khead E (ring w) + cqe_count w"

text \<open>
  What the ring interface says about the consumer index: \<open>io_uring_cq_advance\<close> adds its
  argument to it, and no other call of the interface moves it. The program's own system
  calls, made by resumed code, do not move it either.
\<close>

definition khead_kept :: "('r, 'u) env \<Rightarrow> 'r request \<Rightarrow> bool" where
  "khead_kept E q \<longleftrightarrow>
     (case q of Syscall f \<Rightarrow> (\<forall>r. cq_khead E (f r) = cq_khead E r) | _ \<Rightarrow> True)"

definition consumer_index_contract :: "('r, 'u) env \<Rightarrow> bool" where
  "consumer_index_contract E \<longleftrightarrow>
     (\<forall>nr r. cq_khead E (io_uring_cq_advance E nr r) = cq_khead E r + nr)
     \<and> (\<forall>r. cq_khead E (snd (io_uring_get_sqe E r)) = cq_khead E r)
     \<and> (\<forall>sq r. cq_khead E (io_uring_submit E sq r) = cq_khead E r)
     \<and> (\<forall>sq nr r r'. io_uring_submit_and_wait E sq nr r = Some r' \<longrightarrow> cq_khead E r' = cq_khead E r)
     \<and> (\<forall>coro result u. \<forall>q \<in> set (snd (resolve E coro result u)). khead_kept E q)"

text \<open>
  Between two states the log has only grown, no CQE was observed, and the index up to which
  completions have been taken is the same.
\<close>

definition undisturbed :: "('r, 'u) env \<Rightarrow> ('r, 'u) world \<Rightarrow> ('r, 'u) world \<Rightarrow> bool" where
  "undisturbed E w w' \<longleftrightarrow>
     take (length (calls w)) (calls w') = calls w
     \<and> observations (new_calls w w') = []
     \<and> seen_upto E w' = seen_upto E w"

section \<open>The driver as the specification words it\<close>

text \<open>
  Step 2 of the loop body: every CQE visible from \<open>head\<close> on is visited in order; for each
  the counter is incremented, and where its user data is not null the promise at that
  address is resolved with the CQE's result.
\<close>

inductive spec_visit ::
  "('r, 'u) env \<Rightarrow> c_unsigned \<Rightarrow> ('r, 'u) world \<Rightarrow> ('r, 'u) world \<Rightarrow> bool"
  for E :: "('r, 'u) env" where
    visit_none: "cq_entry E (ring w) head = None \<Longrightarrow> spec_visit E head w w"
  | visit_null:
      "cq_entry E (ring w) head = Some cqe \<Longrightarrow> cqe_user_data cqe = 0 \<Longrightarrow>
       w1 = logged (Observe cqe) (w\<lparr>cqe_count := cqe_count w + 1\<rparr>) \<Longrightarrow>
       spec_visit E (head + 1) w1 w' \<Longrightarrow> spec_visit E head w w'"
  | visit_resolve:
      "cq_entry E (ring w) head = Some cqe \<Longrightarrow> cqe_user_data cqe \<noteq> 0 \<Longrightarrow>
       w1 = logged (Observe cqe) (w\<lparr>cqe_count := cqe_count w + 1\<rparr>) \<Longrightarrow>
       resolve_promise E (cqe_user_data cqe) (cqe_res cqe) w1 = Inr w2 \<Longrightarrow>
       spec_visit E (head + 1) w2 w' \<Longrightarrow> spec_visit E head w w'"

text \<open>
  \<open>run(root)\<close>: when the root reports done, its result is returned; otherwise (1) submit and
  wait for one completion, (2) visit the visible CQEs, (3) advance the consumer by the
  counter and reset the counter, and repeat.
\<close>

inductive spec_run ::
  "('r, 'u) env \<Rightarrow> ('u, 'a) root_task \<Rightarrow> ('r, 'u) world \<Rightarrow> 'a \<times> ('r, 'u) world \<Rightarrow> bool"
  for E :: "('r, 'u) env" and t :: "('u, 'a) root_task" where
    run_done: "task_done t (coros w) \<Longrightarrow> spec_run E t w (task_get_result t (coros w), w)"
  | run_round:
      "\<not> task_done t (coros w) \<Longrightarrow>
       call_submit_and_wait E 1 w = Inr w1 \<Longrightarrow>
       spec_visit E (cq_khead E (ring w1)) w1 w2 \<Longrightarrow>
       w3 = (call_cq_advance E (cqe_count w2) w2)\<lparr>cqe_count := 0\<rparr> \<Longrightarrow>
       spec_run E t w3 x \<Longrightarrow> spec_run E t w x"

section \<open>A small ring to run the model on\<close>

text \<open>
  A ring with \<open>sq_entries\<close> submission slots. Submitting posts one CQE with result 0 for each
  slot handed out since the last submit, carrying the user data found in that slot, and frees
  the slots; while \<open>kernel_up\<close> is false, submitting does nothing. The program on top of it
  records every resolution; the coroutine waiting on promise 1 calls \<open>yield\<close> twice when it
  is resumed, and the root task is done once promise 3 has been resolved with 0.
\<close>

record toy_ring =
  sq_entries :: nat
  sq_used :: nat
  cq :: "io_uring_cqe list"
  cq_head :: c_unsigned
  kernel_up :: bool

definition toy_get_sqe :: "toy_ring \<Rightarrow> sqe_ptr \<times> toy_ring" where
  "toy_get_sqe r =
     (if sq_used r < sq_entries r then (Some (sq_used r), r\<lparr>sq_used := Suc (sq_used r)\<rparr>)
      else (None, r))"

definition toy_submit :: "(nat \<Rightarrow> io_uring_sqe) \<Rightarrow> toy_ring \<Rightarrow> toy_ring" where
  "toy_submit sq r =
     (if kernel_up r
      then r\<lparr>sq_used := 0,
              cq := cq r @ map (\<lambda>i. \<lparr>cqe_user_data = sqe_user_data (sq i), cqe_res = 0\<rparr>)
                             [0 ..< sq_used r]\<rparr>
      else r)"

definition toy_submit_and_wait :: "(nat \<Rightarrow> io_uring_sqe) \<Rightarrow> c_unsigned \<Rightarrow> toy_ring \<Rightarrow> toy_ring option" where
  "toy_submit_and_wait sq wait_nr r =
     (let r1 = toy_submit sq r in if cq r1 = [] then None else Some r1)"

definition toy_cq_advance :: "c_unsigned \<Rightarrow> toy_ring \<Rightarrow> toy_ring" where
  "toy_cq_advance nr r = r\<lparr>cq := drop (unat nr) (cq r), cq_head := cq_head r + nr\<rparr>"

definition toy_cq_entry :: "toy_ring \<Rightarrow> c_unsigned \<Rightarrow> io_uring_cqe option" where
  "toy_cq_entry r h =
     (let i = unat (h - cq_head r) in if i < length (cq r) then Some (cq r ! i) else None)"

fun toy_opcode :: "prep_call \<Rightarrow> 8 word" where
  "toy_opcode prep_nop = 0"
| "toy_opcode (prep_readv fd iovecs nr_vecs offset) = 1"
| "toy_opcode (prep_writev fd iovecs nr_vecs offset) = 2"
| "toy_opcode (prep_rw opc fd a l offset) = ucast opc"
| "toy_opcode (prep_read fd buf nbytes offset) = 22"
| "toy_opcode (prep_write fd buf nbytes offset) = 23"
| "toy_opcode pc = 255"

definition toy_prep :: "prep_call \<Rightarrow> io_uring_sqe \<Rightarrow> io_uring_sqe" where
  "toy_prep pc s = s\<lparr>sqe_opcode := toy_opcode pc, sqe_flags := 0, sqe_user_data := 0\<rparr>"

definition toy_resolve :: "addr \<Rightarrow> c_int \<Rightarrow> (addr \<times> c_int) list \<Rightarrow> (addr \<times> c_int) list \<times> toy_ring request list" where
  "toy_resolve p result u =
     (u @ [(p, result)], if p = 1 then [Operation Yield 0 2, Operation Yield 0 3] else [])"

definition toy_env :: "(toy_ring, (addr \<times> c_int) list) env" where
  "toy_env =
     \<lparr>NDEBUG = False, LINUX_KERNEL_VERSION = 56,
      io_uring_get_sqe = toy_get_sqe, io_uring_submit = toy_submit,
      io_uring_submit_and_wait = toy_submit_and_wait, io_uring_cq_advance = toy_cq_advance,
      cq_khead = cq_head, cq_entry = toy_cq_entry, io_uring_prep = toy_prep,
      io_uring_register = (\<lambda>c r. (- 16, r)), sys_errno = (\<lambda>r. 0),
      sys_openat = (\<lambda>dfd path fl mode r. (- 1, r)), sys_close = (\<lambda>fd r. (- 1, r)),
      resolve = toy_resolve\<rparr>"

definition sqe0 :: io_uring_sqe where
  "sqe0 = \<lparr>sqe_opcode = 0, sqe_flags = 0, sqe_fd = 0, sqe_off = 0, sqe_addr = 0, sqe_len = 0,
           sqe_op_flags = 0, sqe_user_data = 0\<rparr>"

definition toy_world :: "nat \<Rightarrow> (toy_ring, (addr \<times> c_int) list) world" where
  "toy_world depth =
     \<lparr>ring = \<lparr>sq_entries = depth, sq_used = 0, cq = [], cq_head = 0, kernel_up = True\<rparr>,
      cqe_count = 0, sqes = (\<lambda>i. sqe0), coros = [], calls = []\<rparr>"

definition toy_root :: "((addr \<times> c_int) list, nat) root_task" where
  "toy_root = \<lparr>task_done = (\<lambda>u. (3, 0) \<in> set u), task_get_result = length\<rparr>"

text \<open>
  Three states of the small ring: one whose only slot is taken, one whose only slot is taken
  while the kernel does not consume submissions, and the state after a first \<open>yield\<close> on
  promise 1 (the root computation started).
\<close>

definition full_world :: "(toy_ring, (addr \<times> c_int) list) world" where
  "full_world = (toy_world 1)\<lparr>ring := \<lparr>sq_entries = 1, sq_used = 1, cq = [], cq_head = 0, kernel_up = True\<rparr>\<rparr>"

definition stuck_world :: "(toy_ring, (addr \<times> c_int) list) world" where
  "stuck_world = (toy_world 1)\<lparr>ring := \<lparr>sq_entries = 1, sq_used = 1, cq = [], cq_head = 0, kernel_up = False\<rparr>\<rparr>"

text \<open>
  The small ring built for kernel 5.5, on a system whose \<open>openat\<close> succeeds with descriptor
  5 and whose \<open>close\<close> succeeds with 0.
\<close>

definition old_kernel_env :: "(toy_ring, (addr \<times> c_int) list) env" where
  "old_kernel_env =
     toy_env\<lparr>LINUX_KERNEL_VERSION := 55,
              sys_openat := (\<lambda>dfd path fl mode r. (5, r)),
              sys_close := (\<lambda>fd r. (0, r))\<rparr>"

text \<open>
  A state whose completion queue holds a CQE without a promise (as the cancel submission
  leaves one) in front of the CQE of promise 3.
\<close>

definition mixed_world :: "(toy_ring, (addr \<times> c_int) list) world" where
  "mixed_world =
     (toy_world 4)\<lparr>ring := \<lparr>sq_entries = 4, sq_used = 0,
                             cq = [\<lparr>cqe_user_data = 0, cqe_res = - 2\<rparr>,
                                   \<lparr>cqe_user_data = 3, cqe_res = 0\<rparr>],
                             cq_head = 0, kernel_up = True\<rparr>\<rparr>"

definition started_world :: "(toy_ring, (addr \<times> c_int) list) world" where
  "started_world = (case yield toy_env 0 1 (toy_world 1) of Inr (t, w) \<Rightarrow> w | Inl e \<Rightarrow> toy_world 1)"

section \<open>Properties\<close>

subsection \<open>Duration to timespec\<close>

lemma abs_sdiv_le: "\<bar>(k::int) sdiv 1000000000\<bar> \<le> \<bar>k\<bar>"
  by (simp add: signed_divide_int_def abs_mult abs_sgn_eq)
     (smt (verit) div_by_1 zdiv_mono2 abs_ge_zero)

lemma sdiv_in_int64:
  "- (2 ^ 63) \<le> (k::int) \<Longrightarrow> k < 2 ^ 63 \<Longrightarrow>
   - (2 ^ 63) \<le> k sdiv 1000000000 \<and> k sdiv 1000000000 < 2 ^ 63"
  using abs_sdiv_le [of k]
  by (cases "k = - (2 ^ 63)") (simp_all add: signed_divide_int_def, linarith)

lemma smod_nonneg_bounds:
  "0 \<le> k \<Longrightarrow> 0 \<le> k smod 1000000000 \<and> k smod 1000000000 < (1000000000::int)"
  by (simp add: signed_modulo_int_def sgn_if)

lemma abs_smod_less: "\<bar>k smod 1000000000\<bar> < (1000000000::int)"
  by (simp add: signed_modulo_int_def sgn_if abs_mult)

lemma sint_duration_cast_seconds:
  "sint (duration_cast_seconds d) = sint d sdiv 1000000000"
proof -
  have "- (2 ^ 63) \<le> sint d" and "sint d < 2 ^ 63"
    using sint_ge [of d] sint_lt [of d] by simp_all
  then have "- (2 ^ 63) \<le> sint d sdiv 1000000000 \<and> sint d sdiv 1000000000 < 2 ^ 63"
    by (rule sdiv_in_int64)
  then show ?thesis
    unfolding duration_cast_seconds_def
    by (simp add: sint_sbintrunc' signed_take_bit_int_eq_self)
qed

lemma sint_tv_nsec: "sint (tv_nsec (dur2ts d)) = sint d smod 1000000000"
proof -
  let ?q = "sint d sdiv 1000000000"
  have "tv_nsec (dur2ts d) = word_of_int (sint d) - word_of_int ?q * word_of_int 1000000000"
    by (simp add: dur2ts_def duration_cast_seconds_def Let_def)
  also have "\<dots> = word_of_int (sint d - ?q * 1000000000)"
    by (simp only: word_of_int_homs)
  also have "sint d - ?q * 1000000000 = sint d smod 1000000000"
    by (simp add: minus_sdiv_mult_eq_smod)
  finally have eq: "tv_nsec (dur2ts d) = word_of_int (sint d smod 1000000000)" .
  have "- (2 ^ 63) \<le> sint d smod 1000000000 \<and> sint d smod 1000000000 < 2 ^ 63"
    using abs_smod_less [of "sint d"] by (auto simp: abs_less_iff)
  then show ?thesis
    unfolding eq by (simp add: sint_sbintrunc' signed_take_bit_int_eq_self)
qed

text \<open>
  Claim C10. For every duration \<open>d\<close> (a signed 64-bit nanosecond count), \<open>dur2ts d\<close> has
  \<open>tv_sec\<close> equal to \<open>d / 10^9\<close> truncated towards zero, \<open>tv_sec * 10^9 + tv_nsec\<close>
  equal to \<open>d\<close> (as integers, without wrap-around), and for non-negative \<open>d\<close> the
  nanosecond field lies in \<open>[0, 10^9)\<close>.
\<close>

theorem dur2ts_correct:
  "sint (tv_sec (dur2ts d)) = sgn (sint d) * (\<bar>sint d\<bar> div 1000000000)
   \<and> sint (tv_sec (dur2ts d)) * 1000000000 + sint (tv_nsec (dur2ts d)) = sint d
   \<and> (0 \<le> sint d \<longrightarrow>
        0 \<le> sint (tv_nsec (dur2ts d)) \<and> sint (tv_nsec (dur2ts d)) < 1000000000)"
proof -
  have sec: "sint (tv_sec (dur2ts d)) = sint d sdiv 1000000000"
    by (simp add: dur2ts_def Let_def sint_duration_cast_seconds)
  have "sint d sdiv 1000000000 = sgn (sint d) * (\<bar>sint d\<bar> div 1000000000)"
    by (simp add: signed_divide_int_def)
  moreover have "sint d sdiv 1000000000 * 1000000000 + sint d smod 1000000000 = sint d"
    by (simp add: sdiv_mult_smod_eq)
  ultimately show ?thesis
    using smod_nonneg_bounds [of "sint d"] by (simp add: sec sint_tv_nsec)
qed

theorem dur2ts_correct_witness:
  "(0::int) \<le> sint (1500000000 :: int64_t)
   \<and> dur2ts 1500000000 = \<lparr>tv_sec = 1, tv_nsec = 500000000\<rparr>
   \<and> dur2ts (- 1500000000) = \<lparr>tv_sec = - 1, tv_nsec = - 500000000\<rparr>
   \<and> sint (tv_nsec (dur2ts 1500000000)) < 1000000000"
  using dur2ts_correct [of 1500000000]
  by (simp add: dur2ts_def duration_cast_seconds_def Let_def)

subsection \<open>The error adapter\<close>

text \<open>
  Claim C6. With \<open>use_errno\<close> false, the adapter turns every negative return value other
  than \<open>-ETIME\<close> into the failure \<open>system_error (- ret) command\<close> (the failing action and
  the errno), returns \<open>-ETIME\<close> as it is, and returns every non-negative value unchanged.
\<close>

theorem operator_bar_adapter:
  "(ret <s 0 \<and> ret \<noteq> - ETIME \<longrightarrow>
      operator_bar ret \<lparr>command = c, use_errno = False\<rparr> e = Inl (system_error (- ret) c))
   \<and> operator_bar (- ETIME) \<lparr>command = c, use_errno = False\<rparr> e = Inr (- ETIME)
   \<and> (0 \<le>s ret \<longrightarrow> operator_bar ret \<lparr>command = c, use_errno = False\<rparr> e = Inr ret)"
  by (auto simp: operator_bar_def panic_def word_sless_alt word_sle_eq)

theorem operator_bar_adapter_witness:
  "(- 2 :: c_int) <s 0 \<and> (- 2 :: c_int) \<noteq> - ETIME
   \<and> operator_bar (- 2) \<lparr>command = ''queue_init'', use_errno = False\<rparr> 0
       = Inl (system_error 2 ''queue_init'')
   \<and> operator_bar (- 62) \<lparr>command = ''queue_init'', use_errno = False\<rparr> 0 = Inr (- 62)
   \<and> (0 :: c_int) \<le>s 7
   \<and> operator_bar 7 \<lparr>command = ''queue_init'', use_errno = False\<rparr> 0 = Inr 7"
  using operator_bar_adapter [of "- 2" "''queue_init''" 0]
        operator_bar_adapter [of 7 "''queue_init''" 0]
  by (simp add: ETIME_def operator_bar_def panic_def word_sless_alt word_sle_eq)

lemma and_then_Inr_iff:
  "and_then m f = Inr y \<longleftrightarrow> (\<exists>x. m = Inr x \<and> f x = Inr y)"
  by (cases m) (simp_all add: and_then_def)

subsection \<open>The driver on a finished root\<close>

text \<open>
  Claim C9. If the root task reports done when \<open>run\<close> is entered, \<open>run\<close> returns the root's
  result at once, whatever the bounds on the loops, and leaves the whole state as it was:
  the ring is untouched, the counter is unchanged and the log has no new call (no submit,
  no wait, no CQE consumed).
\<close>

theorem run_done_at_entry:
  "task_done t (coros w) \<Longrightarrow> run E t k n w = Inr (task_get_result t (coros w), w)"
  by (cases n) simp_all

theorem run_done_at_entry_witness:
  "task_done toy_root (coros ((toy_world 4)\<lparr>coros := [(3, 0)]\<rparr>))
   \<and> run toy_env toy_root 0 0 ((toy_world 4)\<lparr>coros := [(3, 0)]\<rparr>)
       = Inr (1, (toy_world 4)\<lparr>coros := [(3, 0)]\<rparr>)"
  using run_done_at_entry [of toy_root "(toy_world 4)\<lparr>coros := [(3, 0)]\<rparr>" toy_env 0 0]
  by (simp add: toy_root_def toy_world_def)

subsection \<open>The gatekeeper\<close>

lemma get_sqe_safe_assert:
  "\<not> NDEBUG E \<Longrightarrow> io_uring_get_sqe_safe E w = Inr (sqe, w') \<Longrightarrow> sqe \<noteq> None"
  by (auto simp: io_uring_get_sqe_safe_def Let_def split: prod.splits if_splits)

lemma get_sqe_safe_halts:
  "io_uring_get_sqe_safe E w = Inl e \<Longrightarrow> e = assert_failed \<and> \<not> NDEBUG E"
  by (auto simp: io_uring_get_sqe_safe_def Let_def split: prod.splits if_splits)

lemma get_sqe_safe_calls:
  "io_uring_get_sqe_safe E w = Inr (sqe, w') \<Longrightarrow>
   (fst (io_uring_get_sqe E (ring w)) \<noteq> None \<and> calls w' = calls w @ [Get_sqe sqe]
      \<and> cqe_count w' = cqe_count w)
   \<or> (fst (io_uring_get_sqe E (ring w)) = None
      \<and> calls w' = calls w @ [Get_sqe None, Cq_advance (cqe_count w), Submit, Get_sqe sqe]
      \<and> cqe_count w' = 0)"
  by (auto simp: io_uring_get_sqe_safe_def Let_def call_get_sqe_def call_cq_advance_def
       call_submit_def logged_def split: prod.splits if_splits)

lemma get_sqe_safe_frame:
  "io_uring_get_sqe_safe E w = Inr (sqe, w') \<Longrightarrow> sqes w' = sqes w \<and> coros w' = coros w"
  by (auto simp: io_uring_get_sqe_safe_def Let_def call_get_sqe_def call_cq_advance_def
       call_submit_def logged_def split: prod.splits if_splits)

text \<open>
  Claim C1. The function is documented as never returning \<open>NULL\<close>. With assertions compiled
  in it does not: it returns a slot or stops at the failed assertion (\<open>get_sqe_safe_assert\<close>,
  \<open>get_sqe_safe_halts\<close>), and on a full queue it advances by the counter, resets it, submits
  and asks again, in this order (\<open>get_sqe_safe_calls\<close>). Built with \<open>NDEBUG\<close>, on a ring whose
  only slot is taken and whose kernel does not consume submissions, both slot requests return
  \<open>NULL\<close>, the function returns \<open>NULL\<close> after the flush, and \<open>yield\<close> then writes through the
  null pointer.
\<close>

theorem get_sqe_safe_null_under_NDEBUG:
  "map_sum id (\<lambda>(sqe, w). (sqe, calls w))
     (io_uring_get_sqe_safe (toy_env\<lparr>NDEBUG := True\<rparr>) stuck_world)
   = Inr (None, [Get_sqe None, Cq_advance 0, Submit, Get_sqe None])
   \<and> yield (toy_env\<lparr>NDEBUG := True\<rparr>) 0 1 stuck_world = Inl null_dereference"
  by (simp add: io_uring_get_sqe_safe_def Let_def call_get_sqe_def call_cq_advance_def
       call_submit_def logged_def toy_env_def stuck_world_def toy_world_def toy_get_sqe_def
       toy_submit_def toy_cq_advance_def yield_def DEFINE_AWAIT_OP_def and_then_def write_sqe_def)

subsection \<open>Completions without a promise\<close>

text \<open>
  Against claim C5: a CQE whose user data is null does not stop the driver. The loop body
  returns normally, with the CQE counted and nothing resolved.
\<close>

theorem null_user_data_no_abort:
  "cqe_body toy_env \<lparr>cqe_user_data = 0, cqe_res = 7\<rparr> (toy_world 4)
   = Inr ((toy_world 4)\<lparr>cqe_count := 1, calls := [Observe \<lparr>cqe_user_data = 0, cqe_res = 7\<rparr>]\<rparr>)"
  by (simp add: cqe_body_def Let_def logged_def toy_world_def)

text \<open>
  Claim C5 as amended. For every CQE whose user data is null, the loop body of the driver
  increments the counter, records the observation, resolves nothing and goes on.
\<close>

theorem null_user_data_skipped:
  "cqe_user_data cqe = 0 \<Longrightarrow>
   cqe_body E cqe w = Inr (logged (Observe cqe) (w\<lparr>cqe_count := cqe_count w + 1\<rparr>))"
  by (simp add: cqe_body_def Let_def)

theorem null_user_data_skipped_witness:
  "cqe_user_data \<lparr>cqe_user_data = 0, cqe_res = 7\<rparr> = 0
   \<and> cqe_body toy_env \<lparr>cqe_user_data = 0, cqe_res = 7\<rparr> (toy_world 4)
      = Inr (logged (Observe \<lparr>cqe_user_data = 0, cqe_res = 7\<rparr>)
               ((toy_world 4)\<lparr>cqe_count := cqe_count (toy_world 4) + 1\<rparr>))"
  using null_user_data_skipped [of "\<lparr>cqe_user_data = 0, cqe_res = 7\<rparr>" toy_env "toy_world 4"]
  by simp

subsection \<open>Registration\<close>

text \<open>
  Against claim C7: when the kernel answers \<open>-16\<close> (\<open>-EBUSY\<close>), \<open>unregister_files\<close> and
  \<open>unregister_buffers\<close> hand that code back to the caller; and when it answers \<open>-62\<close>
  (\<open>-ETIME\<close>) to \<open>register_files\<close>, the method returns normally.
\<close>

theorem unregister_returns_code:
  "fst (io_uring_register toy_env unregister_files_call (ring (toy_world 4))) <s 0
   \<and> unregister_files toy_env (toy_world 4) = (- 16, toy_world 4)
   \<and> unregister_buffers toy_env (toy_world 4) = (- 16, toy_world 4)
   \<and> register_files (toy_env\<lparr>io_uring_register := \<lambda>c r. (- 62, r)\<rparr>) 0 0 (toy_world 4) = Inr (toy_world 4)"
  by (simp add: unregister_files_def unregister_buffers_def register_files_def toy_env_def
        toy_world_def operator_bar_def ETIME_def word_sless_alt)

text \<open>
  Claim C7 as amended. For \<open>register_files\<close>, \<open>register_files_update\<close> and
  \<open>register_buffers\<close>, a negative return code other than \<open>-ETIME\<close> is thrown as a
  \<open>system_error\<close> with errno \<open>- ret\<close>; \<open>register_files\<close> and \<open>register_buffers\<close> name their
  own action. \<open>unregister_files\<close> and \<open>unregister_buffers\<close> return the kernel's code as it is.
\<close>

theorem registration_results:
  "(fst (io_uring_register E (register_files_call files nr) (ring w)) = ret \<and> ret <s 0 \<and> ret \<noteq> - ETIME
      \<longrightarrow> register_files E files nr w = Inl (system_error (- ret) ''io_uring_register_files''))
   \<and> (fst (io_uring_register E (register_files_update_call offset files nr) (ring w)) = ret
        \<and> ret <s 0 \<and> ret \<noteq> - ETIME
      \<longrightarrow> (\<exists>action. register_files_update E offset files nr w = Inl (system_error (- ret) action)))
   \<and> (fst (io_uring_register E (register_buffers_call iovecs nr) (ring w)) = ret \<and> ret <s 0 \<and> ret \<noteq> - ETIME
      \<longrightarrow> register_buffers E iovecs nr w = Inl (system_error (- ret) ''io_uring_register_buffers''))
   \<and> fst (unregister_files E w) = fst (io_uring_register E unregister_files_call (ring w))
   \<and> fst (unregister_buffers E w) = fst (io_uring_register E unregister_buffers_call (ring w))"
  by (auto simp: register_files_def register_files_update_def register_buffers_def
        unregister_files_def unregister_buffers_def operator_bar_def panic_def
        split: prod.splits)

theorem registration_results_witness:
  "fst (io_uring_register toy_env (register_files_call 0 2) (ring (toy_world 4))) = - 16
   \<and> (- 16 :: c_int) <s 0 \<and> (- 16 :: c_int) \<noteq> - ETIME
   \<and> register_files toy_env 0 2 (toy_world 4) = Inl (system_error 16 ''io_uring_register_files'')
   \<and> (\<exists>action. register_files_update toy_env 1 0 2 (toy_world 4) = Inl (system_error 16 action))
   \<and> register_buffers toy_env 0 2 (toy_world 4) = Inl (system_error 16 ''io_uring_register_buffers'')
   \<and> fst (unregister_files toy_env (toy_world 4)) = - 16"
  using registration_results [of toy_env 0 2 "toy_world 4" "- 16" 1 0]
  by (simp add: toy_env_def ETIME_def word_sless_alt unregister_files_def)

subsection \<open>What an operation method writes\<close>

lemma write_sqe_Inr_iff:
  "write_sqe sqe f w = Inr w' \<longleftrightarrow> (\<exists>i. sqe = Some i \<and> w' = w\<lparr>sqes := (sqes w)(i := f (sqes w i))\<rparr>)"
  by (cases sqe) (auto simp: write_sqe_def)

lemma await_work_Inr_iff:
  "await_work E sqe iflags p w = Inr (t, w') \<longleftrightarrow>
     (\<exists>i. sqe = Some i \<and> t = Awaiting p (\<lambda>res r. (res, r))
        \<and> w' = w\<lparr>sqes := (sqes w)(i := (sqes w i)\<lparr>sqe_flags := iflags, sqe_user_data := p\<rparr>)\<rparr>)"
  by (cases sqe) (auto simp: await_work_def and_then_def write_sqe_def)

lemma DEFINE_AWAIT_OP_Inr:
  assumes "DEFINE_AWAIT_OP E pc iflags p w = Inr (t, w')"
  shows "\<exists>i w1. io_uring_get_sqe_safe E w = Inr (Some i, w1)
           \<and> t = Awaiting p (\<lambda>res r. (res, r))
           \<and> w' = w1\<lparr>sqes := (sqes w)(i := (io_uring_prep E pc (sqes w i))\<lparr>sqe_flags := iflags, sqe_user_data := p\<rparr>)\<rparr>"
proof -
  from assms obtain sqe w1 w2 where
    g: "io_uring_get_sqe_safe E w = Inr (sqe, w1)" and
    pr: "write_sqe sqe (io_uring_prep E pc) w1 = Inr w2" and
    aw: "await_work E sqe iflags p w2 = Inr (t, w')"
    by (auto simp: DEFINE_AWAIT_OP_def and_then_Inr_iff)
  from pr obtain i where i: "sqe = Some i"
    and w2: "w2 = w1\<lparr>sqes := (sqes w1)(i := io_uring_prep E pc (sqes w1 i))\<rparr>"
    by (auto simp: write_sqe_Inr_iff)
  from aw i have t: "t = Awaiting p (\<lambda>res r. (res, r))"
    and w': "w' = w2\<lparr>sqes := (sqes w2)(i := (sqes w2 i)\<lparr>sqe_flags := iflags, sqe_user_data := p\<rparr>)\<rparr>"
    by (auto simp: await_work_Inr_iff)
  from g have "sqes w1 = sqes w" by (simp add: get_sqe_safe_frame)
  with g i t w2 w' show ?thesis by simp
qed

subsection \<open>Kernels before 5.6\<close>

text \<open>
  Against claim C8: built for kernel 5.5, \<open>read\<close> does not yield. Its one SQE is a
  \<open>readv\<close> (opcode 1), where \<open>yield\<close> prepares a no-op (opcode 0); nothing is done inline.
\<close>

theorem fallback_read_is_readv:
  "map_sum id (\<lambda>(t, w). (sqe_opcode (sqes w 0), calls w))
     (read (toy_env\<lparr>LINUX_KERNEL_VERSION := 55\<rparr>) 3 4096 16 0 0 1 (toy_world 4))
   = Inr (1, [Get_sqe (Some 0)])
   \<and> map_sum id (\<lambda>(t, w). (sqe_opcode (sqes w 0), calls w))
     (yield (toy_env\<lparr>LINUX_KERNEL_VERSION := 55\<rparr>) 0 1 (toy_world 4))
   = Inr (0, [Get_sqe (Some 0)])"
  by (simp add: read_def readv_def yield_def DEFINE_AWAIT_OP_def io_uring_get_sqe_safe_def
        call_get_sqe_def logged_def and_then_def write_sqe_def await_work_def
        toy_env_def toy_world_def toy_get_sqe_def toy_prep_def)

text \<open>
  Claim C8 as amended. Built for a kernel before 5.6, \<open>read\<close> and \<open>write\<close> are the vectored
  methods on a one-element \<open>iovec\<close> array over the caller's buffer, \<open>recv\<close> and \<open>send\<close> are
  the message methods on a \<open>msghdr\<close> with that array, each with the caller's descriptor,
  offset or flags and \<open>iflags\<close>, and without a yield; their task returns the completion
  result it is resumed with, unchanged, as the task of the native path does. \<open>openat\<close> and
  \<open>close\<close> do to the ring what \<open>yield(iflags)\<close> does and wait on the promise of that yield;
  when resumed they make the blocking system call, and where that call succeeds (returns a
  value that is not negative) they return its value. What they return where the call fails
  is not part of the statement.
\<close>

theorem fallback_paths:
  "LINUX_KERNEL_VERSION E < 56 \<Longrightarrow>
     read E fd buf nbytes offset iflags p w
       = readv E fd (Frame_local [\<lparr>iov_base = buf, iov_len = ucast nbytes\<rparr>]) 1 offset iflags p w
   \<and> write' E fd buf nbytes offset iflags p w
       = writev E fd (Frame_local [\<lparr>iov_base = buf, iov_len = ucast nbytes\<rparr>]) 1 offset iflags p w
   \<and> recv E fd buf nbytes msg_flags iflags p w
       = recvmsg E fd (Frame_local \<lparr>msg_iov = Frame_local [\<lparr>iov_base = buf, iov_len = ucast nbytes\<rparr>],
                                    msg_iovlen = 1\<rparr>) msg_flags iflags p w
   \<and> send E fd buf nbytes msg_flags iflags p w
       = sendmsg E fd (Frame_local \<lparr>msg_iov = Frame_local [\<lparr>iov_base = buf, iov_len = ucast nbytes\<rparr>],
                                    msg_iovlen = 1\<rparr>) msg_flags iflags p w
   \<and> (\<forall>t w'. read E fd buf nbytes offset iflags p w = Inr (t, w')
                \<or> write' E fd buf nbytes offset iflags p w = Inr (t, w')
                \<or> recv E fd buf nbytes msg_flags iflags p w = Inr (t, w')
                \<or> send E fd buf nbytes msg_flags iflags p w = Inr (t, w') \<longrightarrow>
        awaited t = p \<and> (\<forall>res r. co_return_value t res r = (res, r)))
   \<and> map_sum id snd (openat E fd path open_flags mode iflags p w) = map_sum id snd (yield E iflags p w)
   \<and> map_sum id snd (close E fd iflags p w) = map_sum id snd (yield E iflags p w)
   \<and> (\<forall>t w'. openat E fd path open_flags mode iflags p w = Inr (t, w') \<longrightarrow>
        awaited t = p
        \<and> (\<forall>res r. snd (co_return_value t res r) = snd (sys_openat E fd path open_flags mode r)
              \<and> (0 \<le>s fst (sys_openat E fd path open_flags mode r) \<longrightarrow>
                   fst (co_return_value t res r) = fst (sys_openat E fd path open_flags mode r))))
   \<and> (\<forall>t w'. close E fd iflags p w = Inr (t, w') \<longrightarrow>
        awaited t = p
        \<and> (\<forall>res r. snd (co_return_value t res r) = snd (sys_close E fd r)
              \<and> (0 \<le>s fst (sys_close E fd r) \<longrightarrow>
                   fst (co_return_value t res r) = fst (sys_close E fd r))))"
proof -
  assume old: "LINUX_KERNEL_VERSION E < 56"
  have d: "t = Awaiting p (\<lambda>res r. (res, r))"
    if "DEFINE_AWAIT_OP E pc iflags p w = Inr (t, w')" for pc t w'
    using that DEFINE_AWAIT_OP_Inr [of E pc iflags p w t w'] by auto
  have y: "t = Awaiting p (\<lambda>res r. (res, r))" if "yield E iflags p w = Inr (t, w')" for t w'
    using that d by (auto simp: yield_def)
  have v: "awaited t = p \<and> (\<forall>res r. co_return_value t res r = (res, r))"
    if "read E fd buf nbytes offset iflags p w = Inr (t, w')
        \<or> write' E fd buf nbytes offset iflags p w = Inr (t, w')
        \<or> recv E fd buf nbytes msg_flags iflags p w = Inr (t, w')
        \<or> send E fd buf nbytes msg_flags iflags p w = Inr (t, w')" for t w'
    using that old
    by (auto simp: read_def write'_def recv_def send_def readv_def writev_def recvmsg_def
          sendmsg_def dest!: d)
  have o: "awaited t = p
        \<and> (\<forall>res r. snd (co_return_value t res r) = snd (sys_openat E fd path open_flags mode r)
              \<and> (0 \<le>s fst (sys_openat E fd path open_flags mode r) \<longrightarrow>
                   fst (co_return_value t res r) = fst (sys_openat E fd path open_flags mode r)))"
    if "openat E fd path open_flags mode iflags p w = Inr (t, w')" for t w'
    using that old y by (auto simp: openat_def and_then_Inr_iff)
  have c: "awaited t = p
        \<and> (\<forall>res r. snd (co_return_value t res r) = snd (sys_close E fd r)
              \<and> (0 \<le>s fst (sys_close E fd r) \<longrightarrow>
                   fst (co_return_value t res r) = fst (sys_close E fd r)))"
    if "close E fd iflags p w = Inr (t, w')" for t w'
    using that old y by (auto simp: close_def and_then_Inr_iff)
  have os: "map_sum id snd (openat E fd path open_flags mode iflags p w) = map_sum id snd (yield E iflags p w)"
    using old by (cases "yield E iflags p w") (auto simp: openat_def and_then_def)
  have cs: "map_sum id snd (close E fd iflags p w) = map_sum id snd (yield E iflags p w)"
    using old by (cases "yield E iflags p w") (auto simp: close_def and_then_def)
  have eqs: "read E fd buf nbytes offset iflags p w
       = readv E fd (Frame_local [\<lparr>iov_base = buf, iov_len = ucast nbytes\<rparr>]) 1 offset iflags p w"
    "write' E fd buf nbytes offset iflags p w
       = writev E fd (Frame_local [\<lparr>iov_base = buf, iov_len = ucast nbytes\<rparr>]) 1 offset iflags p w"
    "recv E fd buf nbytes msg_flags iflags p w
       = recvmsg E fd (Frame_local \<lparr>msg_iov = Frame_local [\<lparr>iov_base = buf, iov_len = ucast nbytes\<rparr>],
                                    msg_iovlen = 1\<rparr>) msg_flags iflags p w"
    "send E fd buf nbytes msg_flags iflags p w
       = sendmsg E fd (Frame_local \<lparr>msg_iov = Frame_local [\<lparr>iov_base = buf, iov_len = ucast nbytes\<rparr>],
                                    msg_iovlen = 1\<rparr>) msg_flags iflags p w"
    using old by (simp_all add: read_def write'_def recv_def send_def)
  from eqs v o c os cs show ?thesis by blast
qed

theorem fallback_paths_witness:
  "LINUX_KERNEL_VERSION old_kernel_env < 56
   \<and> read old_kernel_env 3 4096 16 0 0 1 (toy_world 4)
       = readv old_kernel_env 3 (Frame_local [\<lparr>iov_base = 4096, iov_len = 16\<rparr>]) 1 0 0 1 (toy_world 4)
   \<and> (\<exists>t w'. read old_kernel_env 3 4096 16 0 0 1 (toy_world 4) = Inr (t, w')
         \<and> co_return_value t 16 (ring w') = (16, ring w'))
   \<and> map_sum id snd (openat old_kernel_env 3 4096 0 0 0 1 (toy_world 4))
       = map_sum id snd (yield old_kernel_env 0 1 (toy_world 4))
   \<and> (\<exists>t w'. openat old_kernel_env 3 4096 0 0 0 1 (toy_world 4) = Inr (t, w')
         \<and> (0 :: c_int) \<le>s fst (sys_openat old_kernel_env 3 4096 0 0 (ring w'))
         \<and> co_return_value t 0 (ring w') = (5, ring w'))
   \<and> (\<exists>t w'. close old_kernel_env 3 0 1 (toy_world 4) = Inr (t, w')
         \<and> (0 :: c_int) \<le>s fst (sys_close old_kernel_env 3 (ring w'))
         \<and> co_return_value t 0 (ring w') = (0, ring w'))"
proof -
  note fp = fallback_paths [where E = old_kernel_env and fd = 3 and buf = 4096 and nbytes = 16
          and offset = 0 and iflags = 0 and p = 1 and w = "toy_world 4" and msg_flags = 0
          and path = 4096 and open_flags = 0 and mode = 0]
  have old: "LINUX_KERNEL_VERSION old_kernel_env < 56"
    by (simp add: old_kernel_env_def)
  have sys: "sys_openat old_kernel_env 3 4096 0 0 = (\<lambda>r. (5, r))"
    "sys_close old_kernel_env 3 = (\<lambda>r. (0, r))"
    by (simp_all add: old_kernel_env_def)
  have pos: "(0 :: c_int) \<le>s 5" "(0 :: c_int) \<le>s 0"
    by (simp_all add: word_sle_eq)
  have "\<not> isl (read old_kernel_env 3 4096 16 0 0 1 (toy_world 4))" by code_simp
  then obtain t1 w1 where r: "read old_kernel_env 3 4096 16 0 0 1 (toy_world 4) = Inr (t1, w1)"
    by (cases "read old_kernel_env 3 4096 16 0 0 1 (toy_world 4)") auto
  have "\<not> isl (openat old_kernel_env 3 4096 0 0 0 1 (toy_world 4))" by code_simp
  then obtain t2 w2 where o: "openat old_kernel_env 3 4096 0 0 0 1 (toy_world 4) = Inr (t2, w2)"
    by (cases "openat old_kernel_env 3 4096 0 0 0 1 (toy_world 4)") auto
  have "\<not> isl (close old_kernel_env 3 0 1 (toy_world 4))" by code_simp
  then obtain t3 w3 where c: "close old_kernel_env 3 0 1 (toy_world 4) = Inr (t3, w3)"
    by (cases "close old_kernel_env 3 0 1 (toy_world 4)") auto
  from fp [OF old] r have k1: "co_return_value t1 16 (ring w1) = (16, ring w1)" by blast
  from fp [OF old] o sys pos
  have k2: "co_return_value t2 0 (ring w2) = (5, ring w2)"
    by (metis fst_conv snd_conv prod.collapse)
  from fp [OF old] c sys pos
  have k3: "co_return_value t3 0 (ring w3) = (0, ring w3)"
    by (metis fst_conv snd_conv prod.collapse)
  have e1: "read old_kernel_env 3 4096 16 0 0 1 (toy_world 4)
       = readv old_kernel_env 3 (Frame_local [\<lparr>iov_base = 4096, iov_len = 16\<rparr>]) 1 0 0 1 (toy_world 4)"
    using fp [OF old, THEN conjunct1] by simp
  have e2: "map_sum id snd (openat old_kernel_env 3 4096 0 0 0 1 (toy_world 4))
       = map_sum id snd (yield old_kernel_env 0 1 (toy_world 4))"
    using fp [OF old, THEN conjunct2, THEN conjunct2, THEN conjunct2, THEN conjunct2,
              THEN conjunct2, THEN conjunct1] .
  have x1: "\<exists>t w'. read old_kernel_env 3 4096 16 0 0 1 (toy_world 4) = Inr (t, w')
         \<and> co_return_value t 16 (ring w') = (16, ring w')"
    using r k1 by blast
  have x2: "\<exists>t w'. openat old_kernel_env 3 4096 0 0 0 1 (toy_world 4) = Inr (t, w')
         \<and> (0 :: c_int) \<le>s fst (sys_openat old_kernel_env 3 4096 0 0 (ring w'))
         \<and> co_return_value t 0 (ring w') = (5, ring w')"
    using o k2 pos(1) by (auto simp: sys(1))
  have x3: "\<exists>t w'. close old_kernel_env 3 0 1 (toy_world 4) = Inr (t, w')
         \<and> (0 :: c_int) \<le>s fst (sys_close old_kernel_env 3 (ring w'))
         \<and> co_return_value t 0 (ring w') = (0, ring w')"
    using c k3 pos(2) by (auto simp: sys(2))
  from old e1 x1 e2 x2 x3 show ?thesis by (intro conjI)
qed

text \<open>
  On the small ring, whose \<open>openat\<close> and \<open>close\<close> system calls fail with \<open>-1\<close> as the C
  library reports every failure: the task of the native path returns the CQE result it is
  resumed with (here \<open>-2\<close>, the kernel's \<open>-ENOENT\<close>), the task of the fallback path returns
  \<open>-1\<close> whatever it is resumed with.
\<close>

lemma openat_native_and_fallback_results:
  "map_sum id (\<lambda>(t, w). fst (co_return_value t (- 2) (ring w)))
     (openat toy_env 3 4096 0 0 0 1 (toy_world 4)) = Inr (- 2)
   \<and> map_sum id (\<lambda>(t, w). fst (co_return_value t (- 2) (ring w)))
     (openat (toy_env\<lparr>LINUX_KERNEL_VERSION := 55\<rparr>) 3 4096 0 0 0 1 (toy_world 4)) = Inr (- 1)"
  by code_simp

subsection \<open>Accounting is kept by every step\<close>

lemma tally_append:
  "tally c (es @ fs) = (case tally c es of None \<Rightarrow> None | Some c' \<Rightarrow> tally c' fs)"
  by (induction c es rule: tally.induct) simp_all

lemma tally_sum:
  "tally c es = Some c' \<Longrightarrow> advanced es + c' = c + of_nat (observed es)"
  by (induction c es rule: tally.induct) (auto split: if_splits)

lemma accounted_iff:
  "accounted w w' \<longleftrightarrow>
     (\<exists>es. calls w' = calls w @ es \<and> tally (cqe_count w) es = Some (cqe_count w'))"
proof
  assume a: "accounted w w'"
  then have "calls w' = calls w @ new_calls w w'"
    unfolding accounted_def new_calls_def by (metis append_take_drop_id)
  with a show "\<exists>es. calls w' = calls w @ es \<and> tally (cqe_count w) es = Some (cqe_count w')"
    unfolding accounted_def by blast
next
  assume "\<exists>es. calls w' = calls w @ es \<and> tally (cqe_count w) es = Some (cqe_count w')"
  then show "accounted w w'"
    by (auto simp: accounted_def new_calls_def)
qed

lemma accounted_refl: "accounted w w"
  by (simp add: accounted_iff)

lemma accounted_trans:
  assumes "accounted w w1" and "accounted w1 w2"
  shows "accounted w w2"
proof -
  from assms(1) obtain es where es: "calls w1 = calls w @ es"
    "tally (cqe_count w) es = Some (cqe_count w1)"
    by (auto simp: accounted_iff)
  from assms(2) obtain fs where fs: "calls w2 = calls w1 @ fs"
    "tally (cqe_count w1) fs = Some (cqe_count w2)"
    by (auto simp: accounted_iff)
  have "calls w2 = calls w @ (es @ fs)" using es fs by simp
  moreover have "tally (cqe_count w) (es @ fs) = Some (cqe_count w2)"
    using es(2) fs(2) by (simp add: tally_append)
  ultimately show ?thesis unfolding accounted_iff by blast
qed

lemma accounted_same:
  "calls w' = calls w \<Longrightarrow> cqe_count w' = cqe_count w \<Longrightarrow> accounted w w'"
  by (simp add: accounted_iff)

lemma accounted_get_sqe_safe:
  "io_uring_get_sqe_safe E w = Inr (sqe, w') \<Longrightarrow> accounted w w'"
  using get_sqe_safe_calls [of E w sqe w'] by (auto simp: accounted_iff)

lemma accounted_write_sqe: "write_sqe sqe f w = Inr w' \<Longrightarrow> accounted w w'"
  by (auto simp: write_sqe_Inr_iff intro: accounted_same)

lemma prepared_DEFINE_AWAIT_OP:
  "DEFINE_AWAIT_OP E pc iflags p w = Inr (t, w') \<Longrightarrow> prepared E (io_uring_prep E pc) iflags p w t w'"
  unfolding prepared_def using DEFINE_AWAIT_OP_Inr [of E pc iflags p w t w'] by fastforce

lemma prepared_sync_file_range:
  assumes "sync_file_range E fd offset nbytes srf iflags p w = Inr (t, w')"
  shows "prepared E (prep_of E (Sync_file_range fd offset nbytes srf)) iflags p w t w'"
proof -
  let ?pc = "prep_rw IORING_OP_SYNC_FILE_RANGE fd 0 (ucast nbytes) offset"
  from assms obtain sqe w1 w2 w3 where
    g: "io_uring_get_sqe_safe E w = Inr (sqe, w1)" and
    pr: "write_sqe sqe (io_uring_prep E ?pc) w1 = Inr w2" and
    fl: "write_sqe sqe (\<lambda>s. s\<lparr>sqe_op_flags := srf\<rparr>) w2 = Inr w3" and
    aw: "await_work E sqe iflags p w3 = Inr (t, w')"
    by (auto simp: sync_file_range_def and_then_Inr_iff)
  from g have s: "sqes w1 = sqes w" by (simp add: get_sqe_safe_frame)
  from pr fl aw obtain i where i: "sqe = Some i"
    and w2: "w2 = w1\<lparr>sqes := (sqes w1)(i := io_uring_prep E ?pc (sqes w1 i))\<rparr>"
    and w3: "w3 = w2\<lparr>sqes := (sqes w2)(i := (sqes w2 i)\<lparr>sqe_op_flags := srf\<rparr>)\<rparr>"
    and t: "t = Awaiting p (\<lambda>res r. (res, r))"
    and w': "w' = w3\<lparr>sqes := (sqes w3)(i := (sqes w3 i)\<lparr>sqe_flags := iflags, sqe_user_data := p\<rparr>)\<rparr>"
    by (auto simp: write_sqe_Inr_iff await_work_Inr_iff)
  have "w' = w1\<lparr>sqes := (sqes w)(i := (prep_of E (Sync_file_range fd offset nbytes srf) (sqes w i))
                 \<lparr>sqe_flags := iflags, sqe_user_data := p\<rparr>)\<rparr>"
    using w2 w3 w' s by simp
  with g i t show ?thesis unfolding prepared_def by fastforce
qed

lemma prepared_same_promise:
  "prepared E f iflags p w t0 w' \<Longrightarrow> awaited t = awaited t0 \<Longrightarrow> prepared E f iflags p w t w'"
  by (auto simp: prepared_def)

lemma prepared_invoke:
  assumes "invoke E c iflags p w = Inr (t, w')"
  shows "prepared E (prep_of E c) iflags p w t w'"
proof (cases c)
  case (Sync_file_range fd offset nbytes srf)
  with assms have "sync_file_range E fd offset nbytes srf iflags p w = Inr (t, w')" by simp
  then show ?thesis unfolding Sync_file_range by (rule prepared_sync_file_range)
next
  case (Openat dfd path open_flags mode)
  show ?thesis
  proof (cases "56 \<le> LINUX_KERNEL_VERSION E")
    case True
    with assms Openat show ?thesis by (simp add: openat_def prepared_DEFINE_AWAIT_OP)
  next
    case False
    with assms Openat obtain t0 where y: "yield E iflags p w = Inr (t0, w')"
      and t: "awaited t = awaited t0"
      by (auto simp: openat_def and_then_Inr_iff)
    from y have "prepared E (io_uring_prep E prep_nop) iflags p w t0 w'"
      by (simp add: yield_def prepared_DEFINE_AWAIT_OP)
    then have "prepared E (io_uring_prep E prep_nop) iflags p w t w'"
      using t by (rule prepared_same_promise)
    with False Openat show ?thesis by simp
  qed
next
  case (Close fd)
  show ?thesis
  proof (cases "56 \<le> LINUX_KERNEL_VERSION E")
    case True
    with assms Close show ?thesis by (simp add: close_def prepared_DEFINE_AWAIT_OP)
  next
    case False
    with assms Close obtain t0 where y: "yield E iflags p w = Inr (t0, w')"
      and t: "awaited t = awaited t0"
      by (auto simp: close_def and_then_Inr_iff)
    from y have "prepared E (io_uring_prep E prep_nop) iflags p w t0 w'"
      by (simp add: yield_def prepared_DEFINE_AWAIT_OP)
    then have "prepared E (io_uring_prep E prep_nop) iflags p w t w'"
      using t by (rule prepared_same_promise)
    with False Close show ?thesis by simp
  qed
qed (use assms in \<open>auto simp: readv_def writev_def read_def write'_def read_fixed_def
       write_fixed_def fsync_def recvmsg_def sendmsg_def recv_def send_def poll_def yield_def
       accept_def connect_def timeout_def timeout_dur_def
       intro: prepared_DEFINE_AWAIT_OP split: if_splits\<close>)

lemma accounted_invoke:
  assumes "invoke E c iflags p w = Inr (t, w')"
  shows "accounted w w'"
proof -
  from prepared_invoke [OF assms] obtain i w1 where
    g: "io_uring_get_sqe_safe E w = Inr (Some i, w1)" and
    w': "w' = w1\<lparr>sqes := (sqes w)(i := (prep_of E c (sqes w i))\<lparr>sqe_flags := iflags, sqe_user_data := p\<rparr>)\<rparr>"
    by (auto simp: prepared_def)
  have "accounted w w1" using g by (rule accounted_get_sqe_safe)
  moreover have "accounted w1 w'" using w' by (simp add: accounted_same)
  ultimately show ?thesis by (rule accounted_trans)
qed

lemma accounted_cancel_hook: "cancel_hook E self w = Inr w' \<Longrightarrow> accounted w w'"
  by (auto simp: cancel_hook_def and_then_Inr_iff
      intro: accounted_trans accounted_get_sqe_safe accounted_write_sqe)

lemma accounted_serve1: "serve1 E q w = Inr w' \<Longrightarrow> accounted w w'"
  by (cases q)
     (auto simp: serve1_def and_then_Inr_iff
       intro: accounted_invoke accounted_cancel_hook accounted_same)

lemma accounted_serve: "serve E qs w = Inr w' \<Longrightarrow> accounted w w'"
proof (induction qs arbitrary: w)
  case Nil
  then show ?case by (simp add: accounted_refl)
next
  case (Cons q qs)
  then obtain w1 where "serve1 E q w = Inr w1" "serve E qs w1 = Inr w'"
    by (auto simp: and_then_Inr_iff)
  then show ?case using Cons.IH accounted_serve1 accounted_trans by blast
qed

lemma accounted_resolve_promise:
  assumes "resolve_promise E coro result w = Inr w'"
  shows "accounted w w'"
proof -
  obtain u reqs where r: "resolve E coro result (coros w) = (u, reqs)" by fastforce
  let ?w1 = "logged (Resolve coro result) (w\<lparr>coros := u\<rparr>)"
  have "accounted w ?w1" by (simp add: accounted_iff logged_def)
  moreover have "accounted ?w1 w'"
    using assms r by (simp add: resolve_promise_def accounted_serve)
  ultimately show ?thesis by (rule accounted_trans)
qed

lemma accounted_cqe_body:
  assumes "cqe_body E cqe w = Inr w'"
  shows "accounted w w'"
proof -
  let ?w1 = "logged (Observe cqe) (w\<lparr>cqe_count := cqe_count w + 1\<rparr>)"
  have a: "accounted w ?w1" by (simp add: accounted_iff logged_def)
  show ?thesis
  proof (cases "cqe_user_data cqe = 0")
    case True
    with assms a show ?thesis by (simp add: cqe_body_def Let_def)
  next
    case False
    with assms have "resolve_promise E (cqe_user_data cqe) (cqe_res cqe) ?w1 = Inr w'"
      by (simp add: cqe_body_def Let_def)
    then have "accounted ?w1 w'" by (rule accounted_resolve_promise)
    with a show ?thesis by (rule accounted_trans)
  qed
qed

lemma accounted_for_each_cqe:
  "for_each_cqe E k head w = Inr w' \<Longrightarrow> accounted w w'"
proof (induction k arbitrary: head w)
  case 0
  then show ?case by (auto simp: accounted_refl split: option.splits)
next
  case (Suc k)
  show ?case
  proof (cases "cq_entry E (ring w) head")
    case None
    with Suc.prems show ?thesis by (simp add: accounted_refl)
  next
    case (Some cqe)
    with Suc.prems obtain w1 where b: "cqe_body E cqe w = Inr w1"
      and r: "for_each_cqe E k (head + 1) w1 = Inr w'"
      by (auto split: sum.splits)
    from b have "accounted w w1" by (rule accounted_cqe_body)
    moreover from r have "accounted w1 w'" by (rule Suc.IH)
    ultimately show ?thesis by (rule accounted_trans)
  qed
qed

lemma run_body_accounted:
  assumes "run_body E k w = Inr w'"
  shows "cqe_count w' = 0 \<and> accounted w w'"
proof -
  from assms obtain w1 w2 where
    s: "call_submit_and_wait E 1 w = Inr w1" and
    f: "for_each_cqe E k (cq_khead E (ring w1)) w1 = Inr w2" and
    w': "w' = (call_cq_advance E (cqe_count w2) w2)\<lparr>cqe_count := 0\<rparr>"
    by (auto simp: run_body_def and_then_Inr_iff Let_def)
  from s have "accounted w w1"
    by (auto simp: call_submit_and_wait_def accounted_iff logged_def split: option.splits)
  moreover from f have "accounted w1 w2" by (rule accounted_for_each_cqe)
  moreover have "accounted w2 w'"
    unfolding w' by (simp add: accounted_iff call_cq_advance_def logged_def)
  ultimately have "accounted w w'" using accounted_trans by blast
  then show ?thesis by (simp add: w')
qed

lemma run_accounted:
  "run E t k n w = Inr (x, w') \<Longrightarrow> accounted w w' \<and> (cqe_count w = 0 \<longrightarrow> cqe_count w' = 0)"
proof (induction n arbitrary: w)
  case 0
  then show ?case by (auto simp: accounted_refl split: if_splits)
next
  case (Suc n)
  show ?case
  proof (cases "task_done t (coros w)")
    case True
    with Suc.prems show ?thesis by (auto simp: accounted_refl)
  next
    case False
    with Suc.prems obtain w1 where b: "run_body E k w = Inr w1" and r: "run E t k n w1 = Inr (x, w')"
      by (auto split: sum.splits)
    from run_body_accounted [OF b] Suc.IH [OF r] show ?thesis
      using accounted_trans by blast
  qed
qed

subsection \<open>The consumer index follows the completions read\<close>

lemma observations_append: "observations (es @ fs) = observations es @ observations fs"
  by (induction es rule: observations.induct) simp_all

lemma undisturbed_iff:
  "undisturbed E w w' \<longleftrightarrow>
     (\<exists>es. calls w' = calls w @ es \<and> observations es = [] \<and> seen_upto E w' = seen_upto E w)"
proof
  assume a: "undisturbed E w w'"
  then have "calls w' = calls w @ new_calls w w'"
    unfolding undisturbed_def new_calls_def by (metis append_take_drop_id)
  with a show "\<exists>es. calls w' = calls w @ es \<and> observations es = [] \<and> seen_upto E w' = seen_upto E w"
    unfolding undisturbed_def by blast
next
  assume "\<exists>es. calls w' = calls w @ es \<and> observations es = [] \<and> seen_upto E w' = seen_upto E w"
  then show "undisturbed E w w'"
    by (auto simp: undisturbed_def new_calls_def)
qed

lemma undisturbed_refl: "undisturbed E w w"
  by (simp add: undisturbed_iff)

lemma undisturbed_trans:
  "undisturbed E w w1 \<Longrightarrow> undisturbed E w1 w2 \<Longrightarrow> undisturbed E w w2"
  unfolding undisturbed_iff by (fastforce simp: observations_append)

lemma undisturbed_same:
  "calls w' = calls w \<Longrightarrow> cqe_count w' = cqe_count w \<Longrightarrow> ring w' = ring w \<Longrightarrow> undisturbed E w w'"
  by (simp add: undisturbed_iff seen_upto_def)

lemma undisturbed_get_sqe_safe:
  assumes "consumer_index_contract E" and "io_uring_get_sqe_safe E w = Inr (sqe, w')"
  shows "undisturbed E w w'"
proof -
  from assms(1) have
    adv: "\<And>nr r. cq_khead E (io_uring_cq_advance E nr r) = cq_khead E r + nr" and
    get: "\<And>r. cq_khead E (snd (io_uring_get_sqe E r)) = cq_khead E r" and
    sub: "\<And>sq r. cq_khead E (io_uring_submit E sq r) = cq_khead E r"
    by (simp_all add: consumer_index_contract_def)
  obtain s1 r1 where g1: "io_uring_get_sqe E (ring w) = (s1, r1)" by fastforce
  have k1: "cq_khead E r1 = cq_khead E (ring w)" using get [of "ring w"] g1 by simp
  show ?thesis
  proof (cases s1)
    case (Some i)
    with assms(2) g1 k1 show ?thesis
      by (auto simp: io_uring_get_sqe_safe_def call_get_sqe_def logged_def undisturbed_iff
            seen_upto_def)
  next
    case None
    let ?r3 = "io_uring_submit E (sqes w) (io_uring_cq_advance E (cqe_count w) r1)"
    obtain s2 r4 where g2: "io_uring_get_sqe E ?r3 = (s2, r4)" by fastforce
    have k4: "cq_khead E r4 = cq_khead E (ring w) + cqe_count w"
      using get [of ?r3] g2 k1 by (simp add: sub adv)
    from assms(2) g1 None g2 k4 show ?thesis
      by (auto simp: io_uring_get_sqe_safe_def call_get_sqe_def call_cq_advance_def
            call_submit_def logged_def Let_def undisturbed_iff seen_upto_def
          split: if_splits)
  qed
qed

lemma undisturbed_write_sqe: "write_sqe sqe f w = Inr w' \<Longrightarrow> undisturbed E w w'"
  by (auto simp: write_sqe_Inr_iff intro: undisturbed_same)

lemma undisturbed_invoke:
  assumes "consumer_index_contract E" and "invoke E c iflags p w = Inr (t, w')"
  shows "undisturbed E w w'"
proof -
  from prepared_invoke [OF assms(2)] obtain i w1 where
    g: "io_uring_get_sqe_safe E w = Inr (Some i, w1)" and
    w': "w' = w1\<lparr>sqes := (sqes w)(i := (prep_of E c (sqes w i))\<lparr>sqe_flags := iflags, sqe_user_data := p\<rparr>)\<rparr>"
    by (auto simp: prepared_def)
  have "undisturbed E w w1" using assms(1) g by (rule undisturbed_get_sqe_safe)
  moreover have "undisturbed E w1 w'" using w' by (simp add: undisturbed_same)
  ultimately show ?thesis by (rule undisturbed_trans)
qed

lemma undisturbed_cancel_hook:
  "consumer_index_contract E \<Longrightarrow> cancel_hook E self w = Inr w' \<Longrightarrow> undisturbed E w w'"
  by (auto simp: cancel_hook_def and_then_Inr_iff
      intro: undisturbed_trans undisturbed_get_sqe_safe undisturbed_write_sqe)

lemma undisturbed_serve1:
  assumes "consumer_index_contract E" and "khead_kept E q" and "serve1 E q w = Inr w'"
  shows "undisturbed E w w'"
proof (cases q)
  case (Operation c iflags p)
  with assms(3) obtain t where "invoke E c iflags p w = Inr (t, w')"
    by (auto simp: serve1_def and_then_Inr_iff)
  with assms(1) show ?thesis by (rule undisturbed_invoke)
next
  case (Cancel self)
  with assms(1,3) show ?thesis by (simp add: serve1_def undisturbed_cancel_hook)
next
  case (Syscall f)
  with assms(2,3) show ?thesis
    by (auto simp: serve1_def khead_kept_def undisturbed_iff seen_upto_def)
qed

lemma undisturbed_serve:
  "consumer_index_contract E \<Longrightarrow> \<forall>q \<in> set qs. khead_kept E q \<Longrightarrow> serve E qs w = Inr w' \<Longrightarrow>
   undisturbed E w w'"
proof (induction qs arbitrary: w)
  case Nil
  then show ?case by (simp add: undisturbed_refl)
next
  case (Cons q qs)
  from Cons.prems(3) obtain w1 where s1: "serve1 E q w = Inr w1" and s: "serve E qs w1 = Inr w'"
    by (auto simp: and_then_Inr_iff)
  from Cons.prems(1,2) s1 have "undisturbed E w w1" by (auto intro: undisturbed_serve1)
  moreover from Cons.prems(1,2) s have "undisturbed E w1 w'" by (simp add: Cons.IH)
  ultimately show ?case by (rule undisturbed_trans)
qed

lemma undisturbed_resolve_promise:
  assumes "consumer_index_contract E" and "resolve_promise E coro result w = Inr w'"
  shows "undisturbed E w w'"
proof -
  obtain u reqs where r: "resolve E coro result (coros w) = (u, reqs)" by fastforce
  let ?w1 = "logged (Resolve coro result) (w\<lparr>coros := u\<rparr>)"
  from assms(1) have "\<forall>q \<in> set (snd (resolve E coro result (coros w))). khead_kept E q"
    unfolding consumer_index_contract_def by blast
  with r have kept: "\<forall>q \<in> set reqs. khead_kept E q" by simp
  have "undisturbed E w ?w1" by (simp add: undisturbed_iff logged_def seen_upto_def)
  moreover have "undisturbed E ?w1 w'"
    using assms r kept by (simp add: resolve_promise_def undisturbed_serve)
  ultimately show ?thesis by (rule undisturbed_trans)
qed

lemma cqe_body_takes_one:
  assumes "consumer_index_contract E" and "cqe_body E cqe w = Inr w'"
  shows "\<exists>es. calls w' = calls w @ es \<and> observations es = [cqe]
           \<and> seen_upto E w' = seen_upto E w + 1"
proof -
  let ?w1 = "logged (Observe cqe) (w\<lparr>cqe_count := cqe_count w + 1\<rparr>)"
  have c1: "calls ?w1 = calls w @ [Observe cqe]" and s1: "seen_upto E ?w1 = seen_upto E w + 1"
    by (simp_all add: logged_def seen_upto_def)
  have "undisturbed E ?w1 w'"
  proof (cases "cqe_user_data cqe = 0")
    case True
    with assms(2) show ?thesis by (simp add: cqe_body_def Let_def undisturbed_refl)
  next
    case False
    with assms(2) have "resolve_promise E (cqe_user_data cqe) (cqe_res cqe) ?w1 = Inr w'"
      by (simp add: cqe_body_def Let_def)
    with assms(1) show ?thesis by (rule undisturbed_resolve_promise)
  qed
  then obtain fs where fs: "calls w' = calls ?w1 @ fs" "observations fs = []"
    "seen_upto E w' = seen_upto E ?w1"
    by (auto simp: undisturbed_iff)
  have "calls w' = calls w @ (Observe cqe # fs)" using fs(1) c1 by simp
  moreover have "observations (Observe cqe # fs) = [cqe]" using fs(2) by simp
  moreover have "seen_upto E w' = seen_upto E w + 1" using fs(3) s1 by simp
  ultimately show ?thesis by blast
qed

lemma for_each_cqe_takes_visited:
  "consumer_index_contract E \<Longrightarrow> for_each_cqe E k head w = Inr w' \<Longrightarrow>
   (\<exists>es. calls w' = calls w @ es \<and> observations es = visited E k head w)
   \<and> seen_upto E w' = seen_upto E w + of_nat (length (visited E k head w))
   \<and> cq_entry E (ring w') (head + of_nat (length (visited E k head w))) = None"
proof (induction k arbitrary: head w)
  case 0
  then show ?case by (auto split: option.splits)
next
  case (Suc k)
  show ?case
  proof (cases "cq_entry E (ring w) head")
    case None
    with Suc.prems show ?thesis by simp
  next
    case (Some cqe)
    with Suc.prems(2) obtain w1 where b: "cqe_body E cqe w = Inr w1"
      and r: "for_each_cqe E k (head + 1) w1 = Inr w'"
      by (auto split: sum.splits)
    from cqe_body_takes_one [OF Suc.prems(1) b] obtain es where
      es: "calls w1 = calls w @ es" "observations es = [cqe]"
      and s1: "seen_upto E w1 = seen_upto E w + 1"
      by blast
    from Suc.IH [OF Suc.prems(1) r] obtain fs where
      fs: "calls w' = calls w1 @ fs" "observations fs = visited E k (head + 1) w1"
      and s2: "seen_upto E w' = seen_upto E w1 + of_nat (length (visited E k (head + 1) w1))"
      and e2: "cq_entry E (ring w') (head + 1 + of_nat (length (visited E k (head + 1) w1))) = None"
      by blast
    have v: "visited E (Suc k) head w = cqe # visited E k (head + 1) w1"
      using Some b by simp
    have "calls w' = calls w @ (es @ fs)" using es(1) fs(1) by simp
    moreover have "observations (es @ fs) = visited E (Suc k) head w"
      using es(2) fs(2) v by (simp add: observations_append)
    ultimately have l: "\<exists>gs. calls w' = calls w @ gs \<and> observations gs = visited E (Suc k) head w"
      by blast
    have len: "length (visited E (Suc k) head w) = Suc (length (visited E k (head + 1) w1))"
      by (simp only: v list.size(4))
    have s: "seen_upto E w' = seen_upto E w + of_nat (length (visited E (Suc k) head w))"
      using s1 s2 by (simp only: len) (simp add: ac_simps)
    have e: "cq_entry E (ring w') (head + of_nat (length (visited E (Suc k) head w))) = None"
      using e2 by (simp only: len) (simp add: ac_simps)
    from l s e show ?thesis by blast
  qed
qed

lemma run_body_takes_visited:
  assumes "consumer_index_contract E" and "run_body E k w = Inr w'"
  shows "observations (new_calls w w') = round_visited E k w
         \<and> cq_khead E (ring w')
             = cq_khead E (ring w) + cqe_count w + of_nat (length (round_visited E k w))"
proof -
  from assms(2) obtain w1 w2 where
    s: "call_submit_and_wait E 1 w = Inr w1" and
    f: "for_each_cqe E k (cq_khead E (ring w1)) w1 = Inr w2" and
    w': "w' = (call_cq_advance E (cqe_count w2) w2)\<lparr>cqe_count := 0\<rparr>"
    by (auto simp: run_body_def and_then_Inr_iff Let_def)
  from assms(1) have
    adv: "\<And>nr r. cq_khead E (io_uring_cq_advance E nr r) = cq_khead E r + nr" and
    wait: "\<And>sq nr r r'. io_uring_submit_and_wait E sq nr r = Some r' \<Longrightarrow> cq_khead E r' = cq_khead E r"
    by (simp_all add: consumer_index_contract_def)
  from s obtain r1 where r1: "io_uring_submit_and_wait E (sqes w) 1 (ring w) = Some r1"
    and w1: "w1 = logged (Submit_and_wait 1) (w\<lparr>ring := r1\<rparr>)"
    by (auto simp: call_submit_and_wait_def split: option.splits)
  have c1: "calls w1 = calls w @ [Submit_and_wait 1]"
    and s1: "seen_upto E w1 = seen_upto E w"
    using w1 wait [OF r1] by (simp_all add: logged_def seen_upto_def)
  have rv: "round_visited E k w = visited E k (cq_khead E (ring w1)) w1"
    using s by (simp add: round_visited_def)
  from for_each_cqe_takes_visited [OF assms(1) f] rv obtain es where
    es: "calls w2 = calls w1 @ es" "observations es = round_visited E k w"
    and s2: "seen_upto E w2 = seen_upto E w1 + of_nat (length (round_visited E k w))"
    by auto
  have "calls w' = calls w @ (Submit_and_wait 1 # es @ [Cq_advance (cqe_count w2)])"
    using w' es(1) c1 by (simp add: call_cq_advance_def logged_def)
  then have "new_calls w w' = Submit_and_wait 1 # es @ [Cq_advance (cqe_count w2)]"
    by (simp add: new_calls_def)
  then have o: "observations (new_calls w w') = round_visited E k w"
    using es(2) by (simp add: observations_append)
  have "cq_khead E (ring w') = seen_upto E w2"
    using w' by (simp add: call_cq_advance_def logged_def adv seen_upto_def)
  with s1 s2 have "cq_khead E (ring w')
      = cq_khead E (ring w) + cqe_count w + of_nat (length (round_visited E k w))"
    by (simp add: seen_upto_def)
  with o show ?thesis by blast
qed

lemma toy_consumer_index: "consumer_index_contract toy_env"
  by (auto simp: consumer_index_contract_def toy_env_def toy_cq_advance_def toy_get_sqe_def
        toy_submit_def toy_submit_and_wait_def toy_resolve_def khead_kept_def Let_def
      split: if_splits)

subsection \<open>The shape of the operation methods\<close>

text \<open>
  Against claim C4: on a ring whose only slot is taken, \<open>yield\<close> submits the ring before it
  returns its awaiter, through the gatekeeper.
\<close>

theorem yield_on_full_queue_submits:
  "map_sum id (\<lambda>(t, w). (awaited t, calls w)) (yield toy_env 0 2 full_world)
   = Inr (2, [Get_sqe None, Cq_advance 0, Submit, Get_sqe (Some 0)])"
  by code_simp

text \<open>
  Claim C4 as amended. Every operation method that returns has taken its slot from the
  gatekeeper; the slot holds what the method's preparation wrote (\<open>prep_of\<close>), with the
  flags set to the caller's \<open>iflags\<close> and the user data to the address of the new promise,
  whatever the preparation helper put there; no other slot, and nothing else beyond what
  the gatekeeper did, has changed; the task returned waits on that promise. The method never submits and
  waits, and the ring is submitted during the call exactly when the gatekeeper's first slot
  request returns \<open>NULL\<close>. For a CQE that carries the user data of this SQE, the driver's
  loop body resolves this very promise with the CQE's result.
\<close>

theorem operation_shape:
  "invoke E c iflags p w = Inr (t, w') \<Longrightarrow>
     (\<exists>i w1. io_uring_get_sqe_safe E w = Inr (Some i, w1)
        \<and> sqes w' i = (prep_of E c (sqes w i))\<lparr>sqe_flags := iflags, sqe_user_data := p\<rparr>
        \<and> sqe_flags (sqes w' i) = iflags \<and> sqe_user_data (sqes w' i) = p
        \<and> (\<forall>j. j \<noteq> i \<longrightarrow> sqes w' j = sqes w j)
        \<and> ring w' = ring w1 \<and> cqe_count w' = cqe_count w1 \<and> calls w' = calls w1
        \<and> coros w' = coros w
        \<and> (\<forall>cqe v. cqe_user_data cqe = sqe_user_data (sqes w' i) \<and> p \<noteq> 0 \<longrightarrow>
              cqe_body E cqe v
              = resolve_promise E p (cqe_res cqe)
                  (logged (Observe cqe) (v\<lparr>cqe_count := cqe_count v + 1\<rparr>))))
     \<and> awaited t = p
     \<and> (Submit \<in> set (new_calls w w') \<longleftrightarrow> fst (io_uring_get_sqe E (ring w)) = None)
     \<and> (\<forall>nr. Submit_and_wait nr \<notin> set (new_calls w w'))"
proof -
  assume inv: "invoke E c iflags p w = Inr (t, w')"
  from prepared_invoke [OF inv] obtain i w1 where
    g: "io_uring_get_sqe_safe E w = Inr (Some i, w1)" and
    w': "w' = w1\<lparr>sqes := (sqes w)(i := (prep_of E c (sqes w i))\<lparr>sqe_flags := iflags, sqe_user_data := p\<rparr>)\<rparr>" and
    t: "awaited t = p"
    by (auto simp: prepared_def)
  from g have fr: "coros w1 = coros w" by (simp add: get_sqe_safe_frame)
  have body: "cqe_body E cqe v
        = resolve_promise E p (cqe_res cqe) (logged (Observe cqe) (v\<lparr>cqe_count := cqe_count v + 1\<rparr>))"
    if "cqe_user_data cqe = sqe_user_data (sqes w' i)" "p \<noteq> 0" for cqe v
    using that w' by (simp add: cqe_body_def Let_def)
  have first: "sqes w' i = (prep_of E c (sqes w i))\<lparr>sqe_flags := iflags, sqe_user_data := p\<rparr>
        \<and> sqe_flags (sqes w' i) = iflags \<and> sqe_user_data (sqes w' i) = p
        \<and> (\<forall>j. j \<noteq> i \<longrightarrow> sqes w' j = sqes w j)
        \<and> ring w' = ring w1 \<and> cqe_count w' = cqe_count w1 \<and> calls w' = calls w1
        \<and> coros w' = coros w"
    using w' fr by simp
  have calls: "calls w' = calls w1" using w' by simp
  from get_sqe_safe_calls [OF g] calls
  have sub: "(Submit \<in> set (new_calls w w') \<longleftrightarrow> fst (io_uring_get_sqe E (ring w)) = None)"
    and nowait: "\<forall>nr. Submit_and_wait nr \<notin> set (new_calls w w')"
    by (auto simp: new_calls_def)
  from g first body t sub nowait show ?thesis by blast
qed

theorem operation_shape_witness:
  "\<exists>t w'. invoke toy_env Yield 4 2 full_world = Inr (t, w')
     \<and> sqe_flags (sqes w' 0) = 4 \<and> sqe_user_data (sqes w' 0) = 2 \<and> awaited t = 2
     \<and> Submit \<in> set (new_calls full_world w')"
proof -
  have "\<not> isl (invoke toy_env Yield 4 2 full_world)" by code_simp
  then obtain t w' where h: "invoke toy_env Yield 4 2 full_world = Inr (t, w')"
    by (cases "invoke toy_env Yield 4 2 full_world") auto
  have e: "map_sum id (\<lambda>(sqe, w). sqe) (io_uring_get_sqe_safe toy_env full_world) = Inr (Some 0)"
    "fst (io_uring_get_sqe toy_env (ring full_world)) = None"
    by code_simp+
  from operation_shape [OF h] e h show ?thesis by auto
qed

subsection \<open>Every observed completion is consumed\<close>

text \<open>
  Claim C3. In a round of the driver every CQE read from the ring, with or without a promise,
  is counted: the CQEs the log records as observed are exactly those the loop read; every
  advance of the consumer index made in the round, by a flush of the gatekeeper or by the
  round itself, was by exactly the number of CQEs observed since the advance before it (the
  counter's value on entry included); after the round the counter is zero; and where the
  ring keeps its contract on the consumer index, that index has moved in the round by the
  counter's value on entry plus the number of CQEs read, and the loop has stopped at an index
  without an entry. A flush by the gatekeeper advances by the counter, after the first slot
  request and before the submit, leaves the counter at zero and moves the index by that
  value. Over a whole \<open>run\<close> that starts with the counter at zero, every advance is by the
  number observed since the one before, and the advances add up to the number of CQEs
  observed. Counts are those of \<open>unsigned\<close>, as the consumer index is.
\<close>

theorem completions_accounted:
  "(run_body E k w = Inr w' \<longrightarrow>
      cqe_count w' = 0
      \<and> take (length (calls w)) (calls w') = calls w
      \<and> tally (cqe_count w) (new_calls w w') = Some 0
      \<and> advanced (new_calls w w') = cqe_count w + of_nat (observed (new_calls w w')))
   \<and> (io_uring_get_sqe_safe E w = Inr (sqe, w') \<and> fst (io_uring_get_sqe E (ring w)) = None \<longrightarrow>
      cqe_count w' = 0
      \<and> new_calls w w' = [Get_sqe None, Cq_advance (cqe_count w), Submit, Get_sqe sqe])
   \<and> (run E t k n w = Inr (x, w') \<and> cqe_count w = 0 \<longrightarrow>
      cqe_count w' = 0
      \<and> tally 0 (new_calls w w') = Some 0
      \<and> advanced (new_calls w w') = of_nat (observed (new_calls w w')))
   \<and> (consumer_index_contract E \<and> cqe_body E cqe w = Inr w' \<longrightarrow>
      observations (new_calls w w') = [cqe]
      \<and> seen_upto E w' = seen_upto E w + 1)
   \<and> (consumer_index_contract E \<and> for_each_cqe E k head w = Inr w' \<longrightarrow>
      observations (new_calls w w') = visited E k head w
      \<and> seen_upto E w' = seen_upto E w + of_nat (length (visited E k head w))
      \<and> cq_entry E (ring w') (head + of_nat (length (visited E k head w))) = None)
   \<and> (consumer_index_contract E \<and> run_body E k w = Inr w' \<longrightarrow>
      observations (new_calls w w') = round_visited E k w
      \<and> cq_khead E (ring w')
          = cq_khead E (ring w) + cqe_count w + of_nat (length (round_visited E k w)))
   \<and> (consumer_index_contract E \<and> io_uring_get_sqe_safe E w = Inr (sqe, w')
        \<and> fst (io_uring_get_sqe E (ring w)) = None \<longrightarrow>
      cq_khead E (ring w') = cq_khead E (ring w) + cqe_count w)"
proof (intro conjI impI)
  assume b: "run_body E k w = Inr w'"
  from run_body_accounted [OF b]
  have z: "cqe_count w' = 0" and l: "take (length (calls w)) (calls w') = calls w"
    and c: "tally (cqe_count w) (new_calls w w') = Some 0"
    by (auto simp: accounted_def)
  from z show "cqe_count w' = 0" .
  from l show "take (length (calls w)) (calls w') = calls w" .
  from c show "tally (cqe_count w) (new_calls w w') = Some 0" .
  from tally_sum [OF c]
  show "advanced (new_calls w w') = cqe_count w + of_nat (observed (new_calls w w'))"
    by simp
next
  assume g: "io_uring_get_sqe_safe E w = Inr (sqe, w') \<and> fst (io_uring_get_sqe E (ring w)) = None"
  with get_sqe_safe_calls [of E w sqe w']
  show "cqe_count w' = 0"
    and "new_calls w w' = [Get_sqe None, Cq_advance (cqe_count w), Submit, Get_sqe sqe]"
    by (auto simp: new_calls_def)
next
  assume r: "run E t k n w = Inr (x, w') \<and> cqe_count w = 0"
  with run_accounted [of E t k n w x w']
  have z: "cqe_count w' = 0" and c: "tally 0 (new_calls w w') = Some 0"
    by (auto simp: accounted_def)
  from z show "cqe_count w' = 0" .
  from c show "tally 0 (new_calls w w') = Some 0" .
  from tally_sum [OF c]
  show "advanced (new_calls w w') = of_nat (observed (new_calls w w'))"
    by simp
next
  assume a: "consumer_index_contract E \<and> cqe_body E cqe w = Inr w'"
  then obtain es where "calls w' = calls w @ es" "observations es = [cqe]"
    "seen_upto E w' = seen_upto E w + 1"
    using cqe_body_takes_one [of E cqe w w'] by blast
  then show "observations (new_calls w w') = [cqe]" and "seen_upto E w' = seen_upto E w + 1"
    by (simp_all add: new_calls_def)
next
  assume a: "consumer_index_contract E \<and> for_each_cqe E k head w = Inr w'"
  then obtain es where es: "calls w' = calls w @ es" "observations es = visited E k head w"
    and rest: "seen_upto E w' = seen_upto E w + of_nat (length (visited E k head w))"
      "cq_entry E (ring w') (head + of_nat (length (visited E k head w))) = None"
    using for_each_cqe_takes_visited [of E k head w w'] by blast
  from es show "observations (new_calls w w') = visited E k head w"
    by (simp add: new_calls_def)
  from rest show "seen_upto E w' = seen_upto E w + of_nat (length (visited E k head w))"
    and "cq_entry E (ring w') (head + of_nat (length (visited E k head w))) = None"
    by simp_all
next
  assume a: "consumer_index_contract E \<and> run_body E k w = Inr w'"
  with run_body_takes_visited [of E k w w']
  show "observations (new_calls w w') = round_visited E k w"
    and "cq_khead E (ring w')
          = cq_khead E (ring w) + cqe_count w + of_nat (length (round_visited E k w))"
    by simp_all
next
  assume a: "consumer_index_contract E \<and> io_uring_get_sqe_safe E w = Inr (sqe, w')
        \<and> fst (io_uring_get_sqe E (ring w)) = None"
  with undisturbed_get_sqe_safe [of E w sqe w'] have u: "seen_upto E w' = seen_upto E w"
    by (simp add: undisturbed_def)
  from a get_sqe_safe_calls [of E w sqe w'] have "cqe_count w' = 0" by auto
  with u show "cq_khead E (ring w') = cq_khead E (ring w) + cqe_count w"
    by (simp add: seen_upto_def)
qed

text \<open>
  Two rounds on the small ring. In the first the queue holds a CQE without a promise and
  the CQE of promise 3: both are read, both are counted, and the consumer index moves from
  0 to 2. In the second the coroutine resumed on promise 1 fills the one-slot queue, so the
  gatekeeper flushes in the middle of the round.
\<close>

theorem completions_accounted_witness:
  "consumer_index_contract toy_env
   \<and> (\<exists>w'. run_body toy_env 5 mixed_world = Inr w'
        \<and> cqe_count mixed_world = 0 \<and> cqe_count w' = 0
        \<and> round_visited toy_env 5 mixed_world
            = [\<lparr>cqe_user_data = 0, cqe_res = - 2\<rparr>, \<lparr>cqe_user_data = 3, cqe_res = 0\<rparr>]
        \<and> observations (new_calls mixed_world w')
            = [\<lparr>cqe_user_data = 0, cqe_res = - 2\<rparr>, \<lparr>cqe_user_data = 3, cqe_res = 0\<rparr>]
        \<and> new_calls mixed_world w' =
            [Submit_and_wait 1, Observe \<lparr>cqe_user_data = 0, cqe_res = - 2\<rparr>,
             Observe \<lparr>cqe_user_data = 3, cqe_res = 0\<rparr>, Resolve 3 0, Cq_advance 2]
        \<and> cq_khead toy_env (ring mixed_world) = 0
        \<and> cq_khead toy_env (ring w') = 2)
   \<and> (\<exists>w'. run_body toy_env 5 started_world = Inr w'
        \<and> cqe_count w' = 0
        \<and> observed (new_calls started_world w') = 2
        \<and> advanced (new_calls started_world w') = 2
        \<and> new_calls started_world w' =
            [Submit_and_wait 1, Observe \<lparr>cqe_user_data = 1, cqe_res = 0\<rparr>, Resolve 1 0,
             Get_sqe (Some 0), Get_sqe None, Cq_advance 1, Submit, Get_sqe (Some 0),
             Observe \<lparr>cqe_user_data = 2, cqe_res = 0\<rparr>, Resolve 2 0, Cq_advance 1]
        \<and> cq_khead toy_env (ring w') = 2)"
proof (intro conjI)
  show c: "consumer_index_contract toy_env" by (rule toy_consumer_index)
  show "\<exists>w'. run_body toy_env 5 mixed_world = Inr w'
        \<and> cqe_count mixed_world = 0 \<and> cqe_count w' = 0
        \<and> round_visited toy_env 5 mixed_world
            = [\<lparr>cqe_user_data = 0, cqe_res = - 2\<rparr>, \<lparr>cqe_user_data = 3, cqe_res = 0\<rparr>]
        \<and> observations (new_calls mixed_world w')
            = [\<lparr>cqe_user_data = 0, cqe_res = - 2\<rparr>, \<lparr>cqe_user_data = 3, cqe_res = 0\<rparr>]
        \<and> new_calls mixed_world w' =
            [Submit_and_wait 1, Observe \<lparr>cqe_user_data = 0, cqe_res = - 2\<rparr>,
             Observe \<lparr>cqe_user_data = 3, cqe_res = 0\<rparr>, Resolve 3 0, Cq_advance 2]
        \<and> cq_khead toy_env (ring mixed_world) = 0
        \<and> cq_khead toy_env (ring w') = 2"
  proof -
    have "\<not> isl (run_body toy_env 5 mixed_world)" by code_simp
    then obtain w' where h: "run_body toy_env 5 mixed_world = Inr w'"
      by (cases "run_body toy_env 5 mixed_world") auto
    have "map_sum id (new_calls mixed_world) (run_body toy_env 5 mixed_world)
          = Inr [Submit_and_wait 1, Observe \<lparr>cqe_user_data = 0, cqe_res = - 2\<rparr>,
                 Observe \<lparr>cqe_user_data = 3, cqe_res = 0\<rparr>, Resolve 3 0, Cq_advance 2]"
      by code_simp
    with h have n: "new_calls mixed_world w' =
            [Submit_and_wait 1, Observe \<lparr>cqe_user_data = 0, cqe_res = - 2\<rparr>,
             Observe \<lparr>cqe_user_data = 3, cqe_res = 0\<rparr>, Resolve 3 0, Cq_advance 2]"
      by simp
    have v: "round_visited toy_env 5 mixed_world
            = [\<lparr>cqe_user_data = 0, cqe_res = - 2\<rparr>, \<lparr>cqe_user_data = 3, cqe_res = 0\<rparr>]"
      by code_simp
    have z: "cqe_count mixed_world = 0" "cq_khead toy_env (ring mixed_world) = 0"
      by code_simp+
    note ca = completions_accounted [where E = toy_env and k = 5 and w = mixed_world and w' = w']
    from ca [THEN conjunct1] h have "cqe_count w' = 0" by simp
    moreover from ca [THEN conjunct2, THEN conjunct2, THEN conjunct2, THEN conjunct2,
                      THEN conjunct2, THEN conjunct1] c h
    have "observations (new_calls mixed_world w') = round_visited toy_env 5 mixed_world
      \<and> cq_khead toy_env (ring w')
            = cq_khead toy_env (ring mixed_world) + cqe_count mixed_world
              + of_nat (length (round_visited toy_env 5 mixed_world))"
      by simp
    ultimately show ?thesis using h n v z by simp
  qed
  show "\<exists>w'. run_body toy_env 5 started_world = Inr w'
        \<and> cqe_count w' = 0
        \<and> observed (new_calls started_world w') = 2
        \<and> advanced (new_calls started_world w') = 2
        \<and> new_calls started_world w' =
            [Submit_and_wait 1, Observe \<lparr>cqe_user_data = 1, cqe_res = 0\<rparr>, Resolve 1 0,
             Get_sqe (Some 0), Get_sqe None, Cq_advance 1, Submit, Get_sqe (Some 0),
             Observe \<lparr>cqe_user_data = 2, cqe_res = 0\<rparr>, Resolve 2 0, Cq_advance 1]
        \<and> cq_khead toy_env (ring w') = 2"
  proof -
    have "\<not> isl (run_body toy_env 5 started_world)" by code_simp
    then obtain w' where h: "run_body toy_env 5 started_world = Inr w'"
      by (cases "run_body toy_env 5 started_world") auto
    have "map_sum id (new_calls started_world) (run_body toy_env 5 started_world)
          = Inr [Submit_and_wait 1, Observe \<lparr>cqe_user_data = 1, cqe_res = 0\<rparr>, Resolve 1 0,
            Get_sqe (Some 0), Get_sqe None, Cq_advance 1, Submit, Get_sqe (Some 0),
            Observe \<lparr>cqe_user_data = 2, cqe_res = 0\<rparr>, Resolve 2 0, Cq_advance 1]"
      by code_simp
    with h have n: "new_calls started_world w' =
           [Submit_and_wait 1, Observe \<lparr>cqe_user_data = 1, cqe_res = 0\<rparr>, Resolve 1 0,
            Get_sqe (Some 0), Get_sqe None, Cq_advance 1, Submit, Get_sqe (Some 0),
            Observe \<lparr>cqe_user_data = 2, cqe_res = 0\<rparr>, Resolve 2 0, Cq_advance 1]"
      by simp
    have v: "length (round_visited toy_env 5 started_world) = 2"
      "cqe_count started_world = 0" "cq_khead toy_env (ring started_world) = 0"
      by code_simp+
    note ca = completions_accounted [where E = toy_env and k = 5 and w = started_world and w' = w']
    from ca [THEN conjunct1] h have "cqe_count w' = 0" by simp
    moreover from ca [THEN conjunct2, THEN conjunct2, THEN conjunct2, THEN conjunct2,
                      THEN conjunct2, THEN conjunct1] c h
    have "cq_khead toy_env (ring w')
            = cq_khead toy_env (ring started_world) + cqe_count started_world
              + of_nat (length (round_visited toy_env 5 started_world))"
      by simp
    ultimately show ?thesis using h n v by simp
  qed
qed

subsection \<open>The driver follows the specified loop\<close>

lemma for_each_cqe_end:
  "cq_entry E (ring w) head = None \<Longrightarrow> for_each_cqe E k head w = Inr w"
  by (cases k) simp_all

lemma for_each_cqe_sound:
  "for_each_cqe E k head w = Inr w' \<Longrightarrow> spec_visit E head w w'"
proof (induction k arbitrary: head w)
  case 0
  then show ?case by (auto split: option.splits intro: visit_none)
next
  case (Suc k)
  show ?case
  proof (cases "cq_entry E (ring w) head")
    case None
    with Suc.prems show ?thesis by (auto intro: visit_none)
  next
    case (Some cqe)
    with Suc.prems obtain w1 where b: "cqe_body E cqe w = Inr w1"
      and r: "for_each_cqe E k (head + 1) w1 = Inr w'"
      by (auto split: sum.splits)
    from r have v: "spec_visit E (head + 1) w1 w'" by (rule Suc.IH)
    show ?thesis
    proof (cases "cqe_user_data cqe = 0")
      case True
      with b have "w1 = logged (Observe cqe) (w\<lparr>cqe_count := cqe_count w + 1\<rparr>)"
        by (simp add: cqe_body_def Let_def)
      from Some True this v show ?thesis by (rule visit_null)
    next
      case False
      with b have "resolve_promise E (cqe_user_data cqe) (cqe_res cqe)
                     (logged (Observe cqe) (w\<lparr>cqe_count := cqe_count w + 1\<rparr>)) = Inr w1"
        by (simp add: cqe_body_def Let_def)
      with Some False show ?thesis using v by (rule visit_resolve [OF _ _ refl])
    qed
  qed
qed

lemma for_each_cqe_mono:
  "for_each_cqe E k head w = Inr w' \<Longrightarrow> for_each_cqe E (k + j) head w = Inr w'"
proof (induction k arbitrary: head w)
  case 0
  then show ?case by (auto split: option.splits simp: for_each_cqe_end)
next
  case (Suc k)
  then show ?case by (auto split: option.splits sum.splits)
qed

lemma for_each_cqe_complete:
  "spec_visit E head w w' \<Longrightarrow> \<exists>k. for_each_cqe E k head w = Inr w'"
proof (induction rule: spec_visit.induct)
  case (visit_none w head)
  then have "for_each_cqe E 0 head w = Inr w" by simp
  then show ?case by blast
next
  case (visit_null w head cqe w1 w')
  then obtain k where "for_each_cqe E k (head + 1) w1 = Inr w'" by blast
  with visit_null have "for_each_cqe E (Suc k) head w = Inr w'"
    by (simp add: cqe_body_def Let_def)
  then show ?case by blast
next
  case (visit_resolve w head cqe w1 w2 w')
  then obtain k where "for_each_cqe E k (head + 1) w2 = Inr w'" by blast
  with visit_resolve have "for_each_cqe E (Suc k) head w = Inr w'"
    by (simp add: cqe_body_def Let_def)
  then show ?case by blast
qed

lemma run_body_mono:
  "run_body E k w = Inr w' \<Longrightarrow> run_body E (k + j) w = Inr w'"
  by (auto simp: run_body_def and_then_Inr_iff dest: for_each_cqe_mono)

lemma run_mono:
  "run E t k n w = Inr x \<Longrightarrow> run E t (k + j) (n + m) w = Inr x"
proof (induction n arbitrary: w)
  case 0
  then show ?case by (cases m) (auto split: if_splits)
next
  case (Suc n)
  show ?case
  proof (cases "task_done t (coros w)")
    case True
    with Suc.prems show ?thesis by simp
  next
    case False
    with Suc.prems obtain w1 where b: "run_body E k w = Inr w1" and r: "run E t k n w1 = Inr x"
      by (auto split: sum.splits)
    from b have "run_body E (k + j) w = Inr w1" by (rule run_body_mono)
    with False Suc.IH [OF r] show ?thesis by simp
  qed
qed

lemma run_sound: "run E t k n w = Inr x \<Longrightarrow> spec_run E t w x"
proof (induction n arbitrary: w)
  case 0
  then show ?case by (auto split: if_splits intro: run_done)
next
  case (Suc n)
  show ?case
  proof (cases "task_done t (coros w)")
    case True
    with Suc.prems show ?thesis by (auto intro: run_done)
  next
    case False
    with Suc.prems obtain w3 where b: "run_body E k w = Inr w3" and r: "run E t k n w3 = Inr x"
      by (auto split: sum.splits)
    from b obtain w1 w2 where
      s: "call_submit_and_wait E 1 w = Inr w1" and
      f: "for_each_cqe E k (cq_khead E (ring w1)) w1 = Inr w2" and
      w3: "w3 = (call_cq_advance E (cqe_count w2) w2)\<lparr>cqe_count := 0\<rparr>"
      by (auto simp: run_body_def and_then_Inr_iff Let_def)
    from False s for_each_cqe_sound [OF f] w3 Suc.IH [OF r] show ?thesis
      by (rule run_round)
  qed
qed

lemma run_complete: "spec_run E t w x \<Longrightarrow> \<exists>k n. run E t k n w = Inr x"
proof (induction rule: spec_run.induct)
  case (run_done w)
  then have "run E t 0 0 w = Inr (task_get_result t (coros w), w)" by simp
  then show ?case by blast
next
  case (run_round w w1 w2 w3 x)
  from run_round.hyps(3) obtain k1 where
    f: "for_each_cqe E k1 (cq_khead E (ring w1)) w1 = Inr w2"
    using for_each_cqe_complete by blast
  from run_round.IH obtain k2 n where r: "run E t k2 n w3 = Inr x" by blast
  from f run_round.hyps(2,4) have "run_body E k1 w = Inr w3"
    by (simp add: run_body_def and_then_def Let_def)
  then have b: "run_body E (k1 + k2) w = Inr w3" by (rule run_body_mono)
  from r have "run E t (k2 + k1) (n + 0) w3 = Inr x" by (rule run_mono)
  then have "run E t (k1 + k2) n w3 = Inr x" by (simp add: add.commute)
  with b run_round.hyps(1) have "run E t (k1 + k2) (Suc n) w = Inr x" by simp
  then show ?case by blast
qed

text \<open>
  Claim C2. \<open>run\<close> returns a result and a state, for some bounds on its loops, exactly when
  the specified process yields them: return the root's result when the root reports done,
  otherwise submit and wait for one completion, visit every visible CQE (count it, and
  resolve its promise with its result where the user data is not null), advance the consumer
  by the counter, reset the counter, and repeat.
\<close>

theorem run_follows_spec:
  "(\<exists>k n. run E t k n w = Inr x) \<longleftrightarrow> spec_run E t w x"
  using run_sound run_complete by blast

theorem run_follows_spec_witness:
  "\<exists>w'. run toy_env toy_root 5 5 started_world = Inr (3, w')
     \<and> spec_run toy_env toy_root started_world (3, w')
     \<and> coros w' = [(1, 0), (2, 0), (3, 0)]"
proof -
  have "map_sum id (\<lambda>(a, w). (a, coros w)) (run toy_env toy_root 5 5 started_world)
        = Inr (3, [(1, 0), (2, 0), (3, 0)])"
    by code_simp
  then obtain w' where h: "run toy_env toy_root 5 5 started_world = Inr (3, w')"
    and c: "coros w' = [(1, 0), (2, 0), (3, 0)]"
    by (cases "run toy_env toy_root 5 5 started_world") auto
  from h have "\<exists>k n. run toy_env toy_root k n started_world = Inr (3, w')" by blast
  with run_follows_spec [of toy_env toy_root started_world "(3, w')"] h c show ?thesis by blast
qed

end
